theory Spec2Isabelle
  imports Main "HOL-Library.Word"
begin

unbundle bit_operations_syntax

section \<open>Bytes, frames and errors\<close>

text \<open>
  A Python \<^verbatim>\<open>bytes\<close> or \<^verbatim>\<open>bytearray\<close> value is a list of 8-bit words.
  The constants of \<^verbatim>\<open>const.py\<close> keep their names.
\<close>

type_synonym byte = "8 word"
type_synonym frame = "byte list"

datatype error = ValueError | IndexError | ConnectionError

definition FRAME_SIZE_BYTES :: nat where
  "FRAME_SIZE_BYTES = 22"

definition FRAME_SIZE_HEX :: nat where
  "FRAME_SIZE_HEX = 44"

definition INIT_RETRY_COUNT :: nat where
  "INIT_RETRY_COUNT = 4"

text \<open>
  \<^verbatim>\<open>frame[i] = v\<close> on a bytearray, for a Python integer \<^verbatim>\<open>v\<close>: a value outside
  \<^verbatim>\<open>range(256)\<close> raises ValueError, an index past the end raises IndexError.
  \<^verbatim>\<open>frame[i]\<close> reads a byte, and raises IndexError past the end.
\<close>

definition getitem :: "frame \<Rightarrow> nat \<Rightarrow> error + byte" where
  "getitem fr i = (if i < length fr then Inr (fr ! i) else Inl IndexError)"

definition setitem :: "frame \<Rightarrow> nat \<Rightarrow> int \<Rightarrow> error + frame" where
  "setitem fr i v =
     (if v < 0 \<or> 255 < v then Inl ValueError
      else if \<not> i < length fr then Inl IndexError
      else Inr (fr[i := word_of_int v]))"

text \<open>
  \<^verbatim>\<open>frame[a:b] = xs\<close> on a bytearray with \<^verbatim>\<open>a \<le> b\<close>: the slice is replaced by
  \<^verbatim>\<open>xs\<close>, whatever its length (the bytearray grows or shrinks).
\<close>

definition set_slice :: "frame \<Rightarrow> nat \<Rightarrow> nat \<Rightarrow> byte list \<Rightarrow> frame" where
  "set_slice fr a b xs = take a fr @ xs @ drop b fr"

section \<open>Identifiers\<close>

text \<open>
  \<^verbatim>\<open>DuoFernId\<close> is a frozen dataclass with the one field \<^verbatim>\<open>raw\<close>; its
  \<^verbatim>\<open>__post_init__\<close> raises ValueError unless \<^verbatim>\<open>raw\<close> has three bytes.
  \<open>DuoFernId_init\<close> is the constructor call \<^verbatim>\<open>DuoFernId(raw=...)\<close>.
\<close>

record DuoFernId =
  raw :: "byte list"

definition DuoFernId_init :: "byte list \<Rightarrow> error + DuoFernId" where
  "DuoFernId_init r = (if length r \<noteq> 3 then Inl ValueError else Inr \<lparr>raw = r\<rparr>)"

subsection \<open>The built-in \<^verbatim>\<open>bytes.fromhex\<close>\<close>

text \<open>
  \<^verbatim>\<open>bytes.fromhex\<close> and \<^verbatim>\<open>bytearray.fromhex\<close> are Python built-ins, modelled
  here from the language reference: the string holds two hexadecimal digits per byte,
  ASCII whitespace between the bytes is skipped, and anything else (a character that is
  no hexadecimal digit, a lone digit, whitespace inside a pair) raises ValueError.
\<close>

definition is_space :: "char \<Rightarrow> bool" where
  "is_space c = (c \<in> set [CHR '' '', CHR 0x09, CHR 0x0A, CHR 0x0B, CHR 0x0C, CHR 0x0D])"

definition hex_digit :: "char \<Rightarrow> nat option" where
  "hex_digit c =
     (let n = of_char c :: nat in
      if 48 \<le> n \<and> n \<le> 57 then Some (n - 48)
      else if 65 \<le> n \<and> n \<le> 70 then Some (n - 55)
      else if 97 \<le> n \<and> n \<le> 102 then Some (n - 87)
      else None)"

fun fromhex :: "string \<Rightarrow> error + byte list" where
  "fromhex [] = Inr []"
| "fromhex [c] = (if is_space c then Inr [] else Inl ValueError)"
| "fromhex (c # d # cs) =
     (if is_space c then fromhex (d # cs)
      else case (hex_digit c, hex_digit d) of
        (Some hi, Some lo) \<Rightarrow>
          (case fromhex cs of
             Inl e \<Rightarrow> Inl e
           | Inr bs \<Rightarrow> Inr (of_nat (hi * 16 + lo) # bs))
      | _ \<Rightarrow> Inl ValueError)"

text \<open>\<^verbatim>\<open>DuoFernId.from_hex\<close>.\<close>

definition from_hex :: "string \<Rightarrow> error + DuoFernId" where
  "from_hex hex_str =
     (if length hex_str \<noteq> 6 then Inl ValueError
      else case fromhex hex_str of
        Inl e \<Rightarrow> Inl e
      | Inr bs \<Rightarrow> DuoFernId_init bs)"

section \<open>Enumerations\<close>

datatype CoverCommand = UP | STOP | DOWN | POSITION | TOGGLE

fun CoverCommand_value :: "CoverCommand \<Rightarrow> int" where
  "CoverCommand_value UP = 0x0701"
| "CoverCommand_value STOP = 0x0702"
| "CoverCommand_value DOWN = 0x0703"
| "CoverCommand_value POSITION = 0x0707"
| "CoverCommand_value TOGGLE = 0x071A"

section \<open>Encoder\<close>

text \<open>\<^verbatim>\<open>DuoFernEncoder._frame\<close>: \<^verbatim>\<open>bytearray(22)\<close>, twenty-two zero bytes.\<close>

definition frame_zero :: frame where
  "frame_zero = replicate FRAME_SIZE_BYTES 0"

text \<open>
  A write of a constant in \<^verbatim>\<open>range(256)\<close> at an index that is below the length of the
  bytearray whatever the arguments are cannot raise, and is a plain list update. The
  writes that can raise go through \<open>setitem\<close>.
\<close>

definition build_init1 :: frame where
  "build_init1 = frame_zero[0 := 0x01]"

definition build_init2 :: frame where
  "build_init2 = frame_zero[0 := 0x0E]"

definition build_set_dongle :: "DuoFernId \<Rightarrow> frame" where
  "build_set_dongle system_code =
     (let frame = frame_zero[0 := 0x0A];
          frame = set_slice frame 1 4 (raw system_code);
          frame = frame[4 := 0x00];
          frame = frame[5 := 0x01]
      in frame)"

definition build_init3 :: frame where
  "build_init3 = frame_zero[0 := 0x14, 1 := 0x14]"

definition build_set_pair :: "int \<Rightarrow> DuoFernId \<Rightarrow> frame" where
  "build_set_pair index device_code =
     (let frame = frame_zero[0 := 0x03];
          frame = frame[1 := word_of_int (index AND 0xFF)];
          frame = set_slice frame 2 5 (raw device_code)
      in frame)"

definition build_init_end :: frame where
  "build_init_end = frame_zero[0 := 0x10, 1 := 0x01]"

definition build_ack :: frame where
  "build_ack = frame_zero[0 := 0x81]"

definition build_status_request_broadcast :: frame where
  "build_status_request_broadcast =
     frame_zero[0 := 0x0D, 1 := 0xFF, 2 := 0x0F, 3 := 0x40,
                18 := 0xFF, 19 := 0xFF, 20 := 0xFF, 21 := 0x01]"

definition build_status_request :: "DuoFernId \<Rightarrow> DuoFernId \<Rightarrow> int \<Rightarrow> error + frame" where
  "build_status_request device_code system_code status_type =
     (let frame = frame_zero[0 := 0x0D];
          frame = frame[1 := 0xFF]
      in case setitem frame 2 status_type of
           Inl e \<Rightarrow> Inl e
         | Inr frame \<Rightarrow>
             (let frame = frame[3 := 0x40];
                  frame = set_slice frame 18 21 (raw device_code)
              in setitem frame 21 0x01))"

text \<open>
  \<^verbatim>\<open>build_cover_command\<close>; the warning logged for a POSITION command without a
  position is not part of the returned frame and is left out.
\<close>

definition build_cover_command ::
  "CoverCommand \<Rightarrow> DuoFernId \<Rightarrow> DuoFernId \<Rightarrow> int option \<Rightarrow> bool \<Rightarrow> int \<Rightarrow> error + frame" where
  "build_cover_command command device_code system_code position timer channel =
     (let frame = frame_zero[0 := 0x0D]
      in case setitem frame 1 channel of
           Inl e \<Rightarrow> Inl e
         | Inr frame \<Rightarrow>
             (let cmd_high = drop_bit 8 (CoverCommand_value command) AND 0xFF;
                  cmd_low = CoverCommand_value command AND 0xFF;
                  frame = frame[2 := word_of_int cmd_high];
                  frame = frame[3 := word_of_int cmd_low];
                  timer_byte = (if timer then 0x01 else 0x00);
                  frame =
                    (if command = UP \<or> command = DOWN then frame[4 := timer_byte]
                     else if command = POSITION then
                       (let frame = frame[4 := timer_byte]
                        in case position of
                             Some p \<Rightarrow> frame[5 := word_of_int (max 0 (min 100 p))]
                           | None \<Rightarrow> frame[5 := 0])
                     else frame);
                  frame = frame[12 := 0x00];
                  frame = frame[13 := 0x00];
                  frame = frame[14 := 0x00];
                  frame = set_slice frame 15 18 (raw system_code);
                  frame = set_slice frame 18 21 (raw device_code)
              in setitem frame 21 0x00))"

definition build_start_pair :: frame where
  "build_start_pair = frame_zero[0 := 0x04]"

definition build_stop_pair :: frame where
  "build_stop_pair = frame_zero[0 := 0x05]"

definition build_start_unpair :: frame where
  "build_start_unpair = frame_zero[0 := 0x07]"

definition build_stop_unpair :: frame where
  "build_stop_unpair = frame_zero[0 := 0x08]"

section \<open>Decoder\<close>

datatype MessageType =
  INIT1 | SET_PAIRS | START_PAIR | STOP_PAIR | PAIR_RESPONSE | START_UNPAIR | STOP_UNPAIR
  | SET_DONGLE | COMMAND | INIT2 | STATUS | INIT_END | INIT3 | ACK

fun MessageType_value :: "MessageType \<Rightarrow> byte" where
  "MessageType_value INIT1 = 0x01"
| "MessageType_value SET_PAIRS = 0x03"
| "MessageType_value START_PAIR = 0x04"
| "MessageType_value STOP_PAIR = 0x05"
| "MessageType_value PAIR_RESPONSE = 0x06"
| "MessageType_value START_UNPAIR = 0x07"
| "MessageType_value STOP_UNPAIR = 0x08"
| "MessageType_value SET_DONGLE = 0x0A"
| "MessageType_value COMMAND = 0x0D"
| "MessageType_value INIT2 = 0x0E"
| "MessageType_value STATUS = 0x0F"
| "MessageType_value INIT_END = 0x10"
| "MessageType_value INIT3 = 0x14"
| "MessageType_value ACK = 0x81"

text \<open>
  The decoder's argument is \<^verbatim>\<open>bytes | bytearray | str\<close>; any other type raises
  TypeError, which the type \<open>data\<close> excludes. A \<^verbatim>\<open>str\<close> is a list of characters.
\<close>

datatype data = Bytes "byte list" | Str string

fun ensure_bytes :: "data \<Rightarrow> error + frame" where
  "ensure_bytes (Str s) =
     (if length s \<noteq> FRAME_SIZE_HEX then Inl ValueError else fromhex s)"
| "ensure_bytes (Bytes b) =
     (if length b \<noteq> FRAME_SIZE_BYTES then Inl ValueError else Inr b)"

definition is_ack :: "data \<Rightarrow> error + bool" where
  "is_ack d =
     (case ensure_bytes d of
        Inl e \<Rightarrow> Inl e
      | Inr frame \<Rightarrow>
          (case getitem frame 0 of
             Inl e \<Rightarrow> Inl e
           | Inr b0 \<Rightarrow> Inr (b0 = MessageType_value ACK)))"

text \<open>\<^verbatim>\<open>frame[a:b]\<close> never raises: it is cut short where the bytearray ends.\<close>

definition get_slice :: "frame \<Rightarrow> nat \<Rightarrow> nat \<Rightarrow> byte list" where
  "get_slice fr a b = take (b - a) (drop a fr)"

definition extract_device_code :: "data \<Rightarrow> error + DuoFernId" where
  "extract_device_code d =
     (case ensure_bytes d of
        Inl e \<Rightarrow> Inl e
      | Inr frame \<Rightarrow>
          (case getitem frame 0 of
             Inl e \<Rightarrow> Inl e
           | Inr b0 \<Rightarrow>
               if b0 = MessageType_value ACK then DuoFernId_init (get_slice frame 18 21)
               else DuoFernId_init (get_slice frame 15 18)))"

text \<open>
  The conjunctions of Python's \<^verbatim>\<open>and\<close> read the next byte only when the one before
  it matched.
\<close>

definition is_status_response :: "data \<Rightarrow> error + bool" where
  "is_status_response d =
     (case ensure_bytes d of
        Inl e \<Rightarrow> Inl e
      | Inr frame \<Rightarrow>
          (case getitem frame 0 of
             Inl e \<Rightarrow> Inl e
           | Inr b0 \<Rightarrow>
               if b0 \<noteq> 0x0F then Inr False
               else (case getitem frame 1 of
                  Inl e \<Rightarrow> Inl e
                | Inr b1 \<Rightarrow>
                    if b1 \<noteq> 0xFF then Inr False
                    else (case getitem frame 2 of
                       Inl e \<Rightarrow> Inl e
                     | Inr b2 \<Rightarrow> Inr (b2 = 0x0F)))))"

definition is_pair_response :: "data \<Rightarrow> error + bool" where
  "is_pair_response d =
     (case ensure_bytes d of
        Inl e \<Rightarrow> Inl e
      | Inr frame \<Rightarrow>
          (case getitem frame 0 of
             Inl e \<Rightarrow> Inl e
           | Inr b0 \<Rightarrow>
               if b0 \<noteq> 0x06 then Inr False
               else (case getitem frame 1 of
                  Inl e \<Rightarrow> Inl e
                | Inr b1 \<Rightarrow> Inr (b1 = 0x02))))"

definition is_broadcast_status_ack :: "data \<Rightarrow> error + bool" where
  "is_broadcast_status_ack d =
     (case ensure_bytes d of
        Inl e \<Rightarrow> Inl e
      | Inr frame \<Rightarrow>
          (case getitem frame 0 of
             Inl e \<Rightarrow> Inl e
           | Inr b0 \<Rightarrow>
               if b0 \<noteq> 0x0F then Inr False
               else (case getitem frame 1 of
                  Inl e \<Rightarrow> Inl e
                | Inr b1 \<Rightarrow>
                    if b1 \<noteq> 0xFF then Inr False
                    else (case getitem frame 2 of
                       Inl e \<Rightarrow> Inl e
                     | Inr b2 \<Rightarrow> Inr (b2 = 0x11)))))"

definition should_dispatch :: "data \<Rightarrow> error + bool" where
  "should_dispatch d =
     (case ensure_bytes d of
        Inl e \<Rightarrow> Inl e
      | Inr frame \<Rightarrow>
          (case getitem frame 0 of
             Inl e \<Rightarrow> Inl e
           | Inr b0 \<Rightarrow>
               if b0 = 0x81 then Inr False
               else if b0 \<noteq> 0x0F then Inr True
               else (case getitem frame 1 of
                  Inl e \<Rightarrow> Inl e
                | Inr b1 \<Rightarrow>
                    if b1 \<noteq> 0xFF then Inr True
                    else (case getitem frame 2 of
                       Inl e \<Rightarrow> Inl e
                     | Inr b2 \<Rightarrow> if b2 = 0x11 then Inr False else Inr True))))"

subsection \<open>Status parsing\<close>

record DeviceStatus =
  position :: "int option"
  moving :: string
  time_automatic :: "bool option"
  sun_automatic :: "bool option"
  dawn_automatic :: "bool option"
  dusk_automatic :: "bool option"
  manual_mode :: "bool option"
  ventilating_mode :: "bool option"
  sun_mode :: "bool option"
  sun_position :: "int option"
  ventilating_position :: "int option"
  version :: "string option"

text \<open>\<^verbatim>\<open>DeviceStatus()\<close>, every field at its default.\<close>

definition DeviceStatus_default :: DeviceStatus where
  "DeviceStatus_default =
     \<lparr>position = None, moving = ''stop'', time_automatic = None, sun_automatic = None,
      dawn_automatic = None, dusk_automatic = None, manual_mode = None,
      ventilating_mode = None, sun_mode = None, sun_position = None,
      ventilating_position = None, version = None\<rparr>"

text \<open>
  The two local helpers of \<^verbatim>\<open>parse_status_type40\<close>. They run after
  \<^verbatim>\<open>is_status_response(frame)\<close> has returned, which checks once more that the frame has
  22 bytes, so that the reads of \<open>read_word\<close> (at offsets 3 to 10) and the read of byte
  12 are in range. \<open>extract_bits\<close> is called with \<^verbatim>\<open>from_bit \<le> to_bit\<close> only.
\<close>

definition read_word :: "frame \<Rightarrow> nat \<Rightarrow> int" where
  "read_word frame pos =
     (let byte_offset = 3 + pos
      in if byte_offset + 1 \<ge> FRAME_SIZE_BYTES then 0
         else push_bit 8 (uint (frame ! byte_offset)) OR uint (frame ! (byte_offset + 1)))"

definition extract_bits :: "int \<Rightarrow> nat \<Rightarrow> nat \<Rightarrow> int" where
  "extract_bits word from_bit to_bit =
     (let len = to_bit - from_bit + 1
      in drop_bit from_bit word AND (push_bit len 1 - 1))"

text \<open>The decimal digits of a natural number, as an f-string prints it.\<close>

fun str_nat :: "nat \<Rightarrow> string" where
  "str_nat n =
     (if n < 10 then [char_of (48 + n)]
      else str_nat (n div 10) @ [char_of (48 + n mod 10)])"

declare str_nat.simps [simp del]

definition parse_status_type40 :: "data \<Rightarrow> error + DeviceStatus" where
  "parse_status_type40 d =
     (case ensure_bytes d of
        Inl e \<Rightarrow> Inl e
      | Inr frame \<Rightarrow>
          (let status = DeviceStatus_default
           in case is_status_response (Bytes frame) of
                Inl e \<Rightarrow> Inl e
              | Inr False \<Rightarrow> Inr status
              | Inr True \<Rightarrow>
                  (let ver_byte = uint (frame ! 12);
                       status = status\<lparr>version :=
                         Some (str_nat (nat (drop_bit 4 ver_byte AND 0x0F)) @ ''.''
                               @ str_nat (nat (ver_byte AND 0x0F)))\<rparr>;
                       word7 = read_word frame 7;
                       raw_position = extract_bits word7 0 6;
                       status = status\<lparr>position := Some raw_position\<rparr>;
                       word0 = read_word frame 0;
                       moving_bit = extract_bits word0 0 0;
                       status = status\<lparr>moving := ''stop''\<rparr>;
                       status = status\<lparr>time_automatic := Some (extract_bits word0 0 0 \<noteq> 0)\<rparr>;
                       status = status\<lparr>sun_automatic := Some (extract_bits word0 2 2 \<noteq> 0)\<rparr>;
                       status = status\<lparr>dusk_automatic := Some (extract_bits word0 3 3 \<noteq> 0)\<rparr>;
                       status = status\<lparr>manual_mode := Some (extract_bits word0 7 7 \<noteq> 0)\<rparr>;
                       word1 = read_word frame 1;
                       status = status\<lparr>dawn_automatic := Some (extract_bits word1 3 3 \<noteq> 0)\<rparr>;
                       word2 = read_word frame 2;
                       raw_vent = extract_bits word2 0 6;
                       status = status\<lparr>ventilating_position := Some raw_vent\<rparr>;
                       status = status\<lparr>ventilating_mode := Some (extract_bits word2 7 7 \<noteq> 0)\<rparr>;
                       word6 = read_word frame 6;
                       raw_sun_pos = extract_bits word6 0 6;
                       status = status\<lparr>sun_position := Some raw_sun_pos\<rparr>;
                       status = status\<lparr>sun_mode := Some (extract_bits word6 7 7 \<noteq> 0)\<rparr>
                   in Inr status)))"

section \<open>The byte-stream framer\<close>

text \<open>
  \<^verbatim>\<open>DuoFernSerialProtocol\<close>. An \<^verbatim>\<open>asyncio.Future\<close> is pending or done with a
  result. \<open>flush_handle\<close> says that a flush timer is armed: \<^verbatim>\<open>data_received\<close>
  cancels the timer and arms a new one when bytes remain, and the event loop runs
  \<^verbatim>\<open>_flush_buffer\<close> when an armed timer expires (\<open>timer_expires\<close>).
  A frame goes to one of two sinks, the pending future of the handshake or the frame
  callback; \<open>delivery\<close> records which, and \<^verbatim>\<open>data_received\<close> returns the deliveries
  in the order it made them.
\<close>

datatype future = Pending | Done frame

datatype delivery = Set_result frame | Frame_callback frame

fun delivered :: "delivery \<Rightarrow> frame" where
  "delivered (Set_result fr) = fr"
| "delivered (Frame_callback fr) = fr"

record DuoFernSerialProtocol =
  buffer :: "byte list"
  flush_handle :: bool
  init_response_future :: "future option"

definition DuoFernSerialProtocol_init :: DuoFernSerialProtocol where
  "DuoFernSerialProtocol_init =
     \<lparr>buffer = [], flush_handle = False, init_response_future = None\<rparr>"

definition set_init_response_future ::
  "future option \<Rightarrow> DuoFernSerialProtocol \<Rightarrow> DuoFernSerialProtocol" where
  "set_init_response_future fut p = p\<lparr>init_response_future := fut\<rparr>"

text \<open>The \<^verbatim>\<open>while\<close> loop of \<^verbatim>\<open>data_received\<close>.\<close>

function extract_frames :: "DuoFernSerialProtocol \<Rightarrow> DuoFernSerialProtocol \<times> delivery list" where
  "extract_frames p =
     (if length (buffer p) \<ge> FRAME_SIZE_BYTES then
        (let frame = take FRAME_SIZE_BYTES (buffer p);
             p = p\<lparr>buffer := drop FRAME_SIZE_BYTES (buffer p)\<rparr>
         in if init_response_future p = Some Pending then
              (let (p', out) = extract_frames (p\<lparr>init_response_future := Some (Done frame)\<rparr>)
               in (p', Set_result frame # out))
            else
              (let (p', out) = extract_frames p
               in (p', Frame_callback frame # out)))
      else (p, []))"
  by pat_completeness auto
termination
  by (relation "measure (\<lambda>p. length (buffer p))") (auto simp: FRAME_SIZE_BYTES_def)

declare extract_frames.simps [simp del]

definition data_received ::
  "DuoFernSerialProtocol \<Rightarrow> byte list \<Rightarrow> DuoFernSerialProtocol \<times> delivery list" where
  "data_received p chunk =
     (let p = p\<lparr>flush_handle := False\<rparr>;
          p = p\<lparr>buffer := buffer p @ chunk\<rparr>;
          (p, out) = extract_frames p;
          p = (if length (buffer p) > 0 then p\<lparr>flush_handle := True\<rparr> else p)
      in (p, out))"

definition flush_buffer :: "DuoFernSerialProtocol \<Rightarrow> DuoFernSerialProtocol" where
  "flush_buffer p = (if buffer p \<noteq> [] then p\<lparr>buffer := []\<rparr> else p)"

definition timer_expires :: "DuoFernSerialProtocol \<Rightarrow> DuoFernSerialProtocol" where
  "timer_expires p =
     (if flush_handle p then (flush_buffer p)\<lparr>flush_handle := False\<rparr> else p)"

text \<open>A sequence of chunks arriving one after the other, no timer expiring in between.\<close>

fun feed :: "DuoFernSerialProtocol \<Rightarrow> byte list list \<Rightarrow> DuoFernSerialProtocol \<times> delivery list" where
  "feed p [] = (p, [])"
| "feed p (chunk # chunks) =
     (let (p, out) = data_received p chunk;
          (p, out') = feed p chunks
      in (p, out @ out'))"

section \<open>The stick\<close>

text \<open>
  \<^verbatim>\<open>DuoFernStick\<close>. \<open>transport\<close> and \<open>serial_protocol\<close> say that the attribute is
  not \<^verbatim>\<open>None\<close>, \<open>connected_flag\<close> is \<^verbatim>\<open>_connected\<close>, \<open>queue_task\<close> says that the
  queue processor has been started. What the stick does to the outside is recorded in
  \<open>trace\<close>, oldest first: a frame written to the transport, the warning of
  \<^verbatim>\<open>_send_and_wait\<close> that no response came in time, a frame passed to the message
  callback.
\<close>

datatype event = Tx frame | TimedOut frame | Dispatch frame

record DuoFernStick =
  system_code :: DuoFernId
  paired_devices :: "DuoFernId list"
  transport :: bool
  serial_protocol :: bool
  send_queue :: "frame list"
  ack_event :: bool
  cmd_in_flight :: bool
  queue_task :: bool
  connected_flag :: bool
  initialized :: bool
  closing :: bool
  trace :: "event list"

definition DuoFernStick_init :: "DuoFernId \<Rightarrow> DuoFernId list \<Rightarrow> DuoFernStick" where
  "DuoFernStick_init sc devs =
     \<lparr>system_code = sc, paired_devices = devs, transport = False, serial_protocol = False,
      send_queue = [], ack_event = False, cmd_in_flight = False, queue_task = False,
      connected_flag = False, initialized = False, closing = False, trace = []\<rparr>"

definition connected :: "DuoFernStick \<Rightarrow> bool" where
  "connected s \<longleftrightarrow> connected_flag s \<and> initialized s"

definition write_frame :: "frame \<Rightarrow> DuoFernStick \<Rightarrow> DuoFernStick" where
  "write_frame frame s =
     (if \<not> transport s then s else s\<lparr>trace := trace s @ [Tx frame]\<rparr>)"

definition send_command :: "frame \<Rightarrow> DuoFernStick \<Rightarrow> error + DuoFernStick" where
  "send_command frame s =
     (if \<not> connected_flag s then Inl ConnectionError
      else Inr (s\<lparr>send_queue := send_queue s @ [frame]\<rparr>))"

subsection \<open>The initialization handshake\<close>

text \<open>
  \<^verbatim>\<open>_send_and_wait\<close> writes a frame and waits for the response future, up to the
  timeout. What the wait gives is the environment's choice: \<open>replies\<close> lists, for the
  waits still to come, the response that arrives in time (\<open>Some\<close>) or that none does
  (\<open>None\<close>); a list that has run out means that nothing arrives any more.
\<close>

fun next_reply :: "frame option list \<Rightarrow> frame option \<times> frame option list" where
  "next_reply [] = (None, [])"
| "next_reply (r # rs) = (r, rs)"

definition send_and_wait ::
  "frame \<Rightarrow> frame option list \<Rightarrow> DuoFernStick \<Rightarrow> frame option \<times> frame option list \<times> DuoFernStick" where
  "send_and_wait frame replies s =
     (if \<not> serial_protocol s then (None, replies, s)
      else
        (let s = write_frame frame s
         in case next_reply replies of
              (Some response, replies) \<Rightarrow> (Some response, replies, s)
            | (None, replies) \<Rightarrow> (None, replies, s\<lparr>trace := trace s @ [TimedOut frame]\<rparr>)))"

text \<open>
  Step 5, the loop over \<^verbatim>\<open>enumerate(self._paired_devices)\<close>: its \<^verbatim>\<open>continue\<close> goes
  on with the next device.
\<close>

fun register_devices ::
  "int \<Rightarrow> DuoFernId list \<Rightarrow> frame option list \<Rightarrow> DuoFernStick \<Rightarrow> frame option list \<times> DuoFernStick" where
  "register_devices idx [] replies s = (replies, s)"
| "register_devices idx (device # devices) replies s =
     (let (resp, replies, s) = send_and_wait (build_set_pair idx device) replies s
      in if resp = None then register_devices (idx + 1) devices replies s
         else
           (let s = write_frame build_ack s
            in register_devices (idx + 1) devices replies s))"

text \<open>
  One pass through the body of the \<^verbatim>\<open>for attempt in range(INIT_RETRY_COUNT)\<close> loop:
  \<open>False\<close> is its \<^verbatim>\<open>continue\<close>, \<open>True\<close> its \<^verbatim>\<open>return\<close>.
\<close>

definition init_attempt ::
  "frame option list \<Rightarrow> DuoFernStick \<Rightarrow> bool \<times> frame option list \<times> DuoFernStick" where
  "init_attempt replies s =
     (let (resp, replies, s) = send_and_wait build_init1 replies s in
      if resp = None then (False, replies, s) else
      let (resp, replies, s) = send_and_wait build_init2 replies s in
      if resp = None then (False, replies, s) else
      let (resp, replies, s) = send_and_wait (build_set_dongle (system_code s)) replies s in
      if resp = None then (False, replies, s) else
      let s = write_frame build_ack s;
          (resp, replies, s) = send_and_wait build_init3 replies s in
      if resp = None then (False, replies, s) else
      let s = write_frame build_ack s;
          (replies, s) = register_devices 0 (paired_devices s) replies s;
          (resp, replies, s) = send_and_wait build_init_end replies s in
      if resp = None then (False, replies, s) else
      let s = write_frame build_ack s;
          (resp, replies, s) = send_and_wait build_status_request_broadcast replies s in
      if resp = None then (False, replies, s) else
      let s = write_frame build_ack s;
          s = s\<lparr>initialized := True\<rparr>
      in (True, replies, s))"

fun init_attempts ::
  "nat \<Rightarrow> frame option list \<Rightarrow> DuoFernStick \<Rightarrow> (error + unit) \<times> frame option list \<times> DuoFernStick" where
  "init_attempts 0 replies s = (Inl ConnectionError, replies, s)"
| "init_attempts (Suc n) replies s =
     (let (done, replies, s) = init_attempt replies s
      in if done then (Inr (), replies, s) else init_attempts n replies s)"

definition init_sequence ::
  "frame option list \<Rightarrow> DuoFernStick \<Rightarrow> (error + unit) \<times> frame option list \<times> DuoFernStick" where
  "init_sequence replies s = init_attempts INIT_RETRY_COUNT replies s"

text \<open>
  \<^verbatim>\<open>connect\<close>, for a serial port that opens: the transport and the protocol are set,
  the handshake runs, and the queue processor is started once it has succeeded.
\<close>

definition connect ::
  "frame option list \<Rightarrow> DuoFernStick \<Rightarrow> (error + unit) \<times> frame option list \<times> DuoFernStick" where
  "connect replies s =
     (let s = s\<lparr>transport := True, serial_protocol := True\<rparr>;
          s = s\<lparr>connected_flag := True\<rparr>
      in case init_sequence replies s of
           (Inl e, replies, s) \<Rightarrow> (Inl e, replies, s)
         | (Inr u, replies, s) \<Rightarrow> (Inr u, replies, s\<lparr>queue_task := True\<rparr>))"

subsection \<open>Inbound frames\<close>

text \<open>
  \<^verbatim>\<open>_on_frame_received\<close>; an exception of the message callback is caught and logged
  there, so the callback is the one event \<open>Dispatch\<close>.
\<close>

definition on_frame_received :: "frame \<Rightarrow> DuoFernStick \<Rightarrow> error + DuoFernStick" where
  "on_frame_received frame s =
     (case is_ack (Bytes frame) of
        Inl e \<Rightarrow> Inl e
      | Inr ack \<Rightarrow>
          (let s = (if \<not> ack then write_frame build_ack s else s)
           in if ack then Inr (s\<lparr>ack_event := True\<rparr>)
              else case should_dispatch (Bytes frame) of
                     Inl e \<Rightarrow> Inl e
                   | Inr True \<Rightarrow> Inr (s\<lparr>trace := trace s @ [Dispatch frame]\<rparr>)
                   | Inr False \<Rightarrow> Inr s))"

section \<open>Properties\<close>

text \<open>
  \<open>zero_outside A fr\<close>: the frame has 22 bytes and every byte at an index outside
  \<open>A\<close> is zero. \<open>cover_assigned\<close> is the set of indices at which the layout of a
  cover command puts a value of its own: the header, the command code, the timer flag for
  Up, Down and Position, the position byte for Position, the system code and the device
  code. Bytes 12 to 14 and byte 21, which the layout sets to zero, are left out of it, so
  that they are among the bytes shown to be zero; likewise byte 4 of SetDongle.
\<close>

definition zero_outside :: "nat set \<Rightarrow> frame \<Rightarrow> bool" where
  "zero_outside A fr \<longleftrightarrow> length fr = 22 \<and> (\<forall>i<22. i \<notin> A \<longrightarrow> fr ! i = 0)"

definition cover_assigned :: "CoverCommand \<Rightarrow> nat set" where
  "cover_assigned command =
     {0, 1, 2, 3, 15, 16, 17, 18, 19, 20}
     \<union> (if command \<in> {UP, DOWN, POSITION} then {4} else {})
     \<union> (if command = POSITION then {5} else {})"

text \<open>
  The status layout in the words of the protocol description: word \<open>p\<close> is the 16-bit
  big-endian number in frame bytes \<open>3 + p\<close> and \<open>4 + p\<close>, and the bits \<open>from_bit\<close>
  to \<open>to_bit\<close> of a number are what is left of it after dividing by \<open>2 ^ from_bit\<close>
  and reducing modulo \<open>2 ^ (to_bit - from_bit + 1)\<close>.
\<close>

definition word_at :: "frame \<Rightarrow> nat \<Rightarrow> int" where
  "word_at fr p = uint (fr ! (3 + p)) * 256 + uint (fr ! (4 + p))"

definition bits :: "int \<Rightarrow> nat \<Rightarrow> nat \<Rightarrow> int" where
  "bits w from_bit to_bit = (w div 2 ^ from_bit) mod 2 ^ (to_bit - from_bit + 1)"

text \<open>The consecutive 22-byte slices of a byte stream, a last incomplete one left out.\<close>

definition slices :: "byte list \<Rightarrow> frame list" where
  "slices stream = map (\<lambda>k. take 22 (drop (22 * k) stream)) [0..<length stream div 22]"

text \<open>
  The handshake, read off the trace. \<open>follows e e'\<close> says what may come right after an
  event \<open>e\<close>: after the timeout of a SetPair frame (byte 0 is 0x03) the next SetPair
  frame or InitEnd is written, after the timeout of any other frame Init1 is written, and
  after any other event anything may come. \<open>init1_count\<close> counts the Init1 frames
  written.
\<close>

fun follows :: "event \<Rightarrow> event \<Rightarrow> bool" where
  "follows (TimedOut f) e =
     (if f ! 0 = MessageType_value SET_PAIRS
      then (case e of Tx g \<Rightarrow> g ! 0 = MessageType_value SET_PAIRS \<or> g = build_init_end | _ \<Rightarrow> False)
      else e = Tx build_init1)"
| "follows _ e = True"

definition init1_count :: "event list \<Rightarrow> nat" where
  "init1_count es = length (filter (\<lambda>e. e = Tx build_init1) es)"

text \<open>
  Invariants of the proofs about the handshake: \<open>adj_ok\<close> is \<open>follows\<close> for every two
  neighbours of a trace; \<open>crit_timeout\<close> is the timeout of a frame that is no SetPair
  frame; \<open>pair_ok\<close>, \<open>attempt_ok\<close> and \<open>loop_ok\<close> describe what the registration
  loop, one attempt, and \<open>n\<close> attempts add to the trace.
\<close>

fun adj_ok :: "event list \<Rightarrow> bool" where
  "adj_ok [] = True"
| "adj_ok (e # es) = ((es \<noteq> [] \<longrightarrow> follows e (hd es)) \<and> adj_ok es)"

definition crit_timeout :: "event \<Rightarrow> bool" where
  "crit_timeout e \<longleftrightarrow> (\<exists>f. e = TimedOut f \<and> f ! 0 \<noteq> 0x03)"

definition pair_ok :: "event list \<Rightarrow> bool" where
  "pair_ok new \<longleftrightarrow>
     adj_ok new \<and> (\<forall>e\<in>set new. e \<noteq> Tx build_init1 \<and> \<not> crit_timeout e)
     \<and> (new \<noteq> [] \<longrightarrow> (\<exists>f. hd new = Tx f \<and> f ! 0 = 0x03))"

definition attempt_ok :: "bool \<Rightarrow> event list \<Rightarrow> bool" where
  "attempt_ok done new \<longleftrightarrow>
     adj_ok new
     \<and> (\<exists>rest. new = Tx build_init1 # rest \<and> Tx build_init1 \<notin> set rest)
     \<and> (if done then last new = Tx build_ack else crit_timeout (last new))"

definition loop_ok :: "nat \<Rightarrow> (error + unit) \<Rightarrow> event list \<Rightarrow> bool" where
  "loop_ok n res new \<longleftrightarrow>
     adj_ok new
     \<and> (new \<noteq> [] \<longrightarrow> hd new = Tx build_init1)
     \<and> (0 < n \<longrightarrow> new \<noteq> [])
     \<and> init1_count new \<le> n
     \<and> (case res of
           Inl e \<Rightarrow> e = ConnectionError \<and> init1_count new = n
                     \<and> (new \<noteq> [] \<longrightarrow> crit_timeout (last new))
         | Inr u \<Rightarrow> new \<noteq> [] \<and> last new = Tx build_ack)"

section \<open>Encoder: frame length and reserved bytes\<close>

lemma frame_zero_simp: "frame_zero = [0,0,0,0,0,0,0,0,0,0,0,0,0,0,0,0,0,0,0,0,0,0]"
  by (simp add: frame_zero_def FRAME_SIZE_BYTES_def eval_nat_numeral)

lemma len3: "length xs = 3 \<longleftrightarrow> (\<exists>a b c. xs = [a,b,c])"
  by (auto simp: length_Suc_conv eval_nat_numeral)

lemma less_22_cases:
  "(idx::nat) < 22 \<longleftrightarrow>
     idx = 0 \<or> idx = 1 \<or> idx = 2 \<or> idx = 3 \<or> idx = 4 \<or> idx = 5 \<or> idx = 6 \<or> idx = 7
     \<or> idx = 8 \<or> idx = 9 \<or> idx = 10 \<or> idx = 11 \<or> idx = 12 \<or> idx = 13 \<or> idx = 14
     \<or> idx = 15 \<or> idx = 16 \<or> idx = 17 \<or> idx = 18 \<or> idx = 19 \<or> idx = 20 \<or> idx = 21"
  by arith

lemma all_less_22:
  "(\<forall>i<22. P (i::nat)) \<longleftrightarrow> (P 0 \<and> P 1 \<and> P 2 \<and> P 3 \<and> P 4 \<and> P 5 \<and> P 6 \<and> P 7 \<and> P 8 \<and> P 9 \<and> P 10 \<and> P 11
      \<and> P 12 \<and> P 13 \<and> P 14 \<and> P 15 \<and> P 16 \<and> P 17 \<and> P 18 \<and> P 19 \<and> P 20 \<and> P 21)"
  unfolding less_22_cases by blast

lemma take3_drop:
  "i + 3 \<le> length xs \<Longrightarrow> take 3 (drop i xs) = [xs ! i, xs ! (i + 1), xs ! (i + 2)]"
  by (simp add: list_eq_iff_nth_eq less_Suc_eq numeral_3_eq_3 all_conj_distrib)

lemma zo_list: "zero_outside A [b0,b1,b2,b3,b4,b5,b6,b7,b8,b9,b10,b11,b12,b13,b14,b15,b16,b17,b18,b19,b20,b21]
  \<longleftrightarrow> (0 \<in> A \<or> b0 = 0) \<and> (1 \<in> A \<or> b1 = 0) \<and> (2 \<in> A \<or> b2 = 0) \<and> (3 \<in> A \<or> b3 = 0) \<and> (4 \<in> A \<or> b4 = 0)
   \<and> (5 \<in> A \<or> b5 = 0) \<and> (6 \<in> A \<or> b6 = 0) \<and> (7 \<in> A \<or> b7 = 0) \<and> (8 \<in> A \<or> b8 = 0) \<and> (9 \<in> A \<or> b9 = 0)
   \<and> (10 \<in> A \<or> b10 = 0) \<and> (11 \<in> A \<or> b11 = 0) \<and> (12 \<in> A \<or> b12 = 0) \<and> (13 \<in> A \<or> b13 = 0) \<and> (14 \<in> A \<or> b14 = 0)
   \<and> (15 \<in> A \<or> b15 = 0) \<and> (16 \<in> A \<or> b16 = 0) \<and> (17 \<in> A \<or> b17 = 0) \<and> (18 \<in> A \<or> b18 = 0) \<and> (19 \<in> A \<or> b19 = 0)
   \<and> (20 \<in> A \<or> b20 = 0) \<and> (21 \<in> A \<or> b21 = 0)"
  unfolding zero_outside_def all_less_22 by (simp add: disj_commute imp_conv_disj) 

lemma build_set_dongle_explicit:
  "raw sc = [s0, s1, s2] \<Longrightarrow>
   build_set_dongle sc = [0x0A, s0, s1, s2, 0, 1, 0, 0, 0, 0, 0, 0, 0, 0, 0, 0, 0, 0, 0, 0, 0, 0]"
  by (simp add: build_set_dongle_def frame_zero_simp set_slice_def)

lemma build_set_pair_explicit:
  "raw dc = [d0, d1, d2] \<Longrightarrow>
   build_set_pair idx dc =
     [0x03, word_of_int (idx AND 0xFF), d0, d1, d2, 0, 0, 0, 0, 0, 0, 0, 0, 0, 0, 0, 0, 0, 0, 0, 0, 0]"
  by (simp add: build_set_pair_def frame_zero_simp set_slice_def)

lemma build_status_request_explicit:
  "raw dc = [d0, d1, d2] \<Longrightarrow> 0 \<le> st \<Longrightarrow> st < 256 \<Longrightarrow>
   build_status_request dc sc st =
     Inr [0x0D, 0xFF, word_of_int st, 0x40, 0, 0, 0, 0, 0, 0, 0, 0, 0, 0, 0, 0, 0, 0, d0, d1, d2, 1]"
  by (simp add: build_status_request_def frame_zero_simp set_slice_def setitem_def)

lemma build_status_request_Inr:
  "build_status_request dc sc st = Inr fr \<Longrightarrow> 0 \<le> st \<and> st < 256"
  by (auto simp: build_status_request_def setitem_def Let_def split: if_splits)

lemma build_cover_command_explicit:
  assumes "raw dc = [d0, d1, d2]" "raw sc = [s0, s1, s2]" "0 \<le> ch" "ch < 256"
  shows "build_cover_command cmd dc sc pos tm ch =
     Inr [0x0D, word_of_int ch, 0x07, word_of_int (CoverCommand_value cmd AND 0xFF),
          (if cmd \<in> {UP, DOWN, POSITION} \<and> tm then 1 else 0),
          (case (cmd, pos) of (POSITION, Some p) \<Rightarrow> word_of_int (max 0 (min 100 p)) | _ \<Rightarrow> 0),
          0, 0, 0, 0, 0, 0, 0, 0, 0, s0, s1, s2, d0, d1, d2, 0]"
  using assms
  by (cases cmd; cases pos) (simp_all add: build_cover_command_def frame_zero_simp set_slice_def setitem_def Let_def)

lemma build_cover_command_Inr:
  "build_cover_command cmd dc sc pos tm ch = Inr fr \<Longrightarrow> 0 \<le> ch \<and> ch < 256"
  by (auto simp: build_cover_command_def setitem_def Let_def split: if_splits)

lemmas const_frames = build_init1_def build_init2_def build_init3_def build_init_end_def build_ack_def
     build_status_request_broadcast_def build_start_pair_def build_stop_pair_def build_start_unpair_def build_stop_unpair_def

text \<open>
  C1. Every frame that an encoder operation produces has exactly 22 bytes, and each of its
  bytes at an index that the layout of the message does not assign is zero. The two
  operations that take an integer for a byte (the status type, the channel) produce a
  frame whenever that integer is in \<^verbatim>\<open>range(256)\<close>. Identifiers are three bytes long,
  as their constructor enforces.
\<close>

theorem encoder_frames_22_bytes_zero_elsewhere:
  assumes "length (raw dc) = 3" and "length (raw sc) = 3"
  shows "zero_outside {0} build_init1
       \<and> zero_outside {0} build_init2
       \<and> zero_outside {0, 1, 2, 3, 5} (build_set_dongle sc)
       \<and> zero_outside {0, 1} build_init3
       \<and> zero_outside {0, 1, 2, 3, 4} (build_set_pair idx dc)
       \<and> zero_outside {0, 1} build_init_end
       \<and> zero_outside {0} build_ack
       \<and> zero_outside {0, 1, 2, 3, 18, 19, 20, 21} build_status_request_broadcast
       \<and> (0 \<le> st \<and> st < 256 \<longrightarrow> (\<exists>fr. build_status_request dc sc st = Inr fr))
       \<and> (\<forall>fr. build_status_request dc sc st = Inr fr
             \<longrightarrow> zero_outside {0, 1, 2, 3, 18, 19, 20, 21} fr)
       \<and> (0 \<le> ch \<and> ch < 256 \<longrightarrow> (\<exists>fr. build_cover_command cmd dc sc pos tm ch = Inr fr))
       \<and> (\<forall>fr. build_cover_command cmd dc sc pos tm ch = Inr fr
             \<longrightarrow> zero_outside (cover_assigned cmd) fr)
       \<and> zero_outside {0} build_start_pair
       \<and> zero_outside {0} build_stop_pair
       \<and> zero_outside {0} build_start_unpair
       \<and> zero_outside {0} build_stop_unpair"
proof -
  from assms obtain d0 d1 d2 s0 s1 s2 where dc: "raw dc = [d0, d1, d2]" and sc: "raw sc = [s0, s1, s2]"
    by (auto simp: len3)
  have cst: "zero_outside {0} build_init1" "zero_outside {0} build_init2"
    "zero_outside {0, 1} build_init3" "zero_outside {0, 1} build_init_end"
    "zero_outside {0} build_ack"
    "zero_outside {0, 1, 2, 3, 18, 19, 20, 21} build_status_request_broadcast"
    "zero_outside {0} build_start_pair" "zero_outside {0} build_stop_pair"
    "zero_outside {0} build_start_unpair" "zero_outside {0} build_stop_unpair"
    by (simp_all add: const_frames frame_zero_simp zo_list)
  have dongle: "zero_outside {0, 1, 2, 3, 5} (build_set_dongle sc)"
    by (simp add: build_set_dongle_explicit [OF sc] zo_list)
  have pair: "zero_outside {0, 1, 2, 3, 4} (build_set_pair idx dc)"
    by (simp add: build_set_pair_explicit [OF dc] zo_list)
  have sr_ex: "0 \<le> st \<and> st < 256 \<longrightarrow> (\<exists>fr. build_status_request dc sc st = Inr fr)"
    by (simp add: build_status_request_explicit [OF dc])
  have sr: "zero_outside {0, 1, 2, 3, 18, 19, 20, 21} fr"
    if "build_status_request dc sc st = Inr fr" for fr
    using that build_status_request_Inr [OF that]
    by (auto simp: build_status_request_explicit [OF dc] zo_list)
  have cc_ex: "0 \<le> ch \<and> ch < 256 \<longrightarrow> (\<exists>fr. build_cover_command cmd dc sc pos tm ch = Inr fr)"
    by (simp add: build_cover_command_explicit [OF dc sc])
  have cc: "zero_outside (cover_assigned cmd) fr"
    if "build_cover_command cmd dc sc pos tm ch = Inr fr" for fr
    using that build_cover_command_Inr [OF that]
    by (cases cmd) (auto simp: build_cover_command_explicit [OF dc sc] zo_list cover_assigned_def)
  show ?thesis
    using cst dongle pair sr_ex sr cc_ex cc by blast
qed

theorem encoder_frames_22_bytes_zero_elsewhere_witness:
  "length (raw \<lparr>raw = [0x40, 0x53, 0xB8]\<rparr>) = 3
   \<and> length (raw \<lparr>raw = [0x6F, 0x12, 0x34]\<rparr>) = 3
   \<and> (0 \<le> (15::int) \<and> (15::int) < 256)
   \<and> build_status_request \<lparr>raw = [0x40, 0x53, 0xB8]\<rparr> \<lparr>raw = [0x6F, 0x12, 0x34]\<rparr> 15
       = Inr [0x0D, 0xFF, 0x0F, 0x40, 0, 0, 0, 0, 0, 0, 0, 0, 0, 0, 0, 0, 0, 0, 0x40, 0x53, 0xB8, 1]
   \<and> zero_outside {0, 1, 2, 3, 18, 19, 20, 21}
        [0x0D, 0xFF, 0x0F, 0x40, 0, 0, 0, 0, 0, 0, 0, 0, 0, 0, 0, 0, 0, 0, 0x40, 0x53, 0xB8, 1]
   \<and> (0 \<le> (1::int) \<and> (1::int) < 256)
   \<and> build_cover_command POSITION \<lparr>raw = [0x40, 0x53, 0xB8]\<rparr> \<lparr>raw = [0x6F, 0x12, 0x34]\<rparr>
        (Some 37) True 1
       = Inr [0x0D, 1, 7, 7, 1, 37, 0, 0, 0, 0, 0, 0, 0, 0, 0, 0x6F, 0x12, 0x34, 0x40, 0x53, 0xB8, 0]
   \<and> zero_outside (cover_assigned POSITION)
        [0x0D, 1, 7, 7, 1, 37, 0, 0, 0, 0, 0, 0, 0, 0, 0, 0x6F, 0x12, 0x34, 0x40, 0x53, 0xB8, 0]
   \<and> zero_outside {0, 1, 2, 3, 5} (build_set_dongle \<lparr>raw = [0x6F, 0x12, 0x34]\<rparr>)
   \<and> (6::nat) < 22 \<and> (6::nat) \<notin> {0, 1, 2, 3, 5}
   \<and> build_set_dongle \<lparr>raw = [0x6F, 0x12, 0x34]\<rparr> ! 6 = 0"
  using encoder_frames_22_bytes_zero_elsewhere
    [where dc = "\<lparr>raw = [0x40, 0x53, 0xB8]\<rparr>" and sc = "\<lparr>raw = [0x6F, 0x12, 0x34]\<rparr>"
       and st = 15 and ch = 1 and cmd = POSITION and pos = "Some 37" and tm = True and idx = 0]
  by (simp add: build_status_request_explicit build_cover_command_explicit
      build_set_dongle_explicit)

lemma uint_clamp: "uint (word_of_int (max 0 (min 100 p)) :: byte) = max 0 (min 100 p)"
proof -
  have "0 \<le> max 0 (min 100 p)" "max 0 (min 100 p) < 256" by auto
  then show ?thesis by (simp add: uint_word_of_int take_bit_eq_mod)
qed

text \<open>
  C7. A Position command writes the position clamped into 0..100 at frame byte 5, for
  every integer position: \<open>max 0 (min 100 p)\<close>; no value is rejected. For every other
  command byte 5 stays zero, whatever position is passed.
\<close>

theorem cover_position_clamped:
  assumes "length (raw dc) = 3" and "length (raw sc) = 3" and "0 \<le> ch" and "ch < 256"
  shows "(\<exists>fr. build_cover_command POSITION dc sc (Some p) tm ch = Inr fr
              \<and> length fr = 22 \<and> uint (fr ! 5) = max 0 (min 100 p))
       \<and> (cmd \<noteq> POSITION
            \<longrightarrow> (\<exists>fr. build_cover_command cmd dc sc pos tm ch = Inr fr
                     \<and> length fr = 22 \<and> fr ! 5 = 0))"
proof -
  from assms obtain d0 d1 d2 s0 s1 s2 where dc: "raw dc = [d0, d1, d2]" and sc: "raw sc = [s0, s1, s2]"
    by (auto simp: len3)
  note ex = build_cover_command_explicit [OF dc sc assms(3,4)]
  have "\<exists>fr. build_cover_command POSITION dc sc (Some p) tm ch = Inr fr
              \<and> length fr = 22 \<and> uint (fr ! 5) = max 0 (min 100 p)"
    by (simp add: ex uint_clamp)
  moreover have "\<exists>fr. build_cover_command cmd dc sc pos tm ch = Inr fr
                     \<and> length fr = 22 \<and> fr ! 5 = 0" if "cmd \<noteq> POSITION"
    using that by (cases cmd) (simp_all add: ex)
  ultimately show ?thesis by blast
qed

theorem cover_position_clamped_witness:
  "length (raw \<lparr>raw = [0x40, 0x53, 0xB8]\<rparr>) = 3 \<and> length (raw \<lparr>raw = [0x6F, 0x12, 0x34]\<rparr>) = 3
   \<and> (0::int) \<le> 1 \<and> (1::int) < 256
   \<and> (\<exists>fr. build_cover_command POSITION \<lparr>raw = [0x40, 0x53, 0xB8]\<rparr> \<lparr>raw = [0x6F, 0x12, 0x34]\<rparr>
              (Some 37) False 1 = Inr fr \<and> length fr = 22 \<and> uint (fr ! 5) = 37)
   \<and> (\<exists>fr. build_cover_command POSITION \<lparr>raw = [0x40, 0x53, 0xB8]\<rparr> \<lparr>raw = [0x6F, 0x12, 0x34]\<rparr>
              (Some 150) False 1 = Inr fr \<and> length fr = 22 \<and> uint (fr ! 5) = 100)
   \<and> (\<exists>fr. build_cover_command POSITION \<lparr>raw = [0x40, 0x53, 0xB8]\<rparr> \<lparr>raw = [0x6F, 0x12, 0x34]\<rparr>
              (Some (- 5)) False 1 = Inr fr \<and> length fr = 22 \<and> uint (fr ! 5) = 0)
   \<and> UP \<noteq> POSITION
   \<and> (\<exists>fr. build_cover_command UP \<lparr>raw = [0x40, 0x53, 0xB8]\<rparr> \<lparr>raw = [0x6F, 0x12, 0x34]\<rparr>
              (Some 37) False 1 = Inr fr \<and> length fr = 22 \<and> fr ! 5 = 0)"
  using cover_position_clamped [where dc = "\<lparr>raw = [0x40, 0x53, 0xB8]\<rparr>"
      and sc = "\<lparr>raw = [0x6F, 0x12, 0x34]\<rparr>" and ch = 1 and p = 37 and tm = False
      and cmd = UP and pos = "Some 37"]
    cover_position_clamped [where dc = "\<lparr>raw = [0x40, 0x53, 0xB8]\<rparr>"
      and sc = "\<lparr>raw = [0x6F, 0x12, 0x34]\<rparr>" and ch = 1 and p = 150 and tm = False
      and cmd = UP and pos = "Some 37"]
    cover_position_clamped [where dc = "\<lparr>raw = [0x40, 0x53, 0xB8]\<rparr>"
      and sc = "\<lparr>raw = [0x6F, 0x12, 0x34]\<rparr>" and ch = 1 and p = "- 5" and tm = False
      and cmd = UP and pos = "Some 37"]
  by simp

section \<open>Decoder: identifiers, dispatch, status\<close>

lemma ensure_bytes_Bytes: "length fr = 22 \<Longrightarrow> ensure_bytes (Bytes fr) = Inr fr"
  by (simp add: FRAME_SIZE_BYTES_def)

lemma getitem_22: "length fr = 22 \<Longrightarrow> i < 22 \<Longrightarrow> getitem fr i = Inr (fr ! i)"
  by (simp add: getitem_def)

lemma slice3:
  "a + 3 \<le> length fr \<Longrightarrow> get_slice fr a (a + 3) = [fr ! a, fr ! (a + 1), fr ! (a + 2)]"
  by (simp add: get_slice_def take3_drop)

lemma extract_device_code_22:
  assumes "length fr = 22"
  shows "extract_device_code (Bytes fr) =
     Inr \<lparr>raw = (if fr ! 0 = 0x81 then [fr ! 18, fr ! 19, fr ! 20] else [fr ! 15, fr ! 16, fr ! 17])\<rparr>"
  using assms slice3 [of 18 fr] slice3 [of 15 fr]
  by (simp add: extract_device_code_def FRAME_SIZE_BYTES_def getitem_22 DuoFernId_init_def)

text \<open>
  C4. For every 22-byte frame \<^verbatim>\<open>extract_device_code\<close> returns the identifier at bytes
  18 to 20 when byte 0 is 0x81 (ACK) and the identifier at bytes 15 to 17 for every other
  byte 0. An identifier written into that position of a frame is what the decoder
  returns.
\<close>

theorem extract_device_code_by_kind:
  assumes "length fr = 22"
  shows "extract_device_code (Bytes fr) =
           Inr \<lparr>raw = (if fr ! 0 = 0x81 then [fr ! 18, fr ! 19, fr ! 20]
                        else [fr ! 15, fr ! 16, fr ! 17])\<rparr>
       \<and> (length (raw d) = 3 \<and> fr ! 0 = 0x81
            \<longrightarrow> extract_device_code (Bytes (set_slice fr 18 21 (raw d))) = Inr d)
       \<and> (length (raw d) = 3 \<and> fr ! 0 \<noteq> 0x81
            \<longrightarrow> extract_device_code (Bytes (set_slice fr 15 18 (raw d))) = Inr d)"
proof (intro conjI impI)
  show "extract_device_code (Bytes fr) =
           Inr \<lparr>raw = (if fr ! 0 = 0x81 then [fr ! 18, fr ! 19, fr ! 20]
                        else [fr ! 15, fr ! 16, fr ! 17])\<rparr>"
    by (rule extract_device_code_22 [OF assms])
next
  assume a: "length (raw d) = 3 \<and> fr ! 0 = 0x81"
  then obtain d0 d1 d2 where d: "raw d = [d0, d1, d2]" by (auto simp: len3)
  let ?g = "set_slice fr 18 21 (raw d)"
  have len: "length ?g = 22" using assms d by (simp add: set_slice_def)
  have "?g ! 0 = 0x81 \<and> ?g ! 18 = d0 \<and> ?g ! 19 = d1 \<and> ?g ! 20 = d2"
    using assms a d by (simp add: set_slice_def nth_append)
  then have "extract_device_code (Bytes ?g) = Inr \<lparr>raw = [d0, d1, d2]\<rparr>"
    by (simp add: extract_device_code_22 [OF len])
  then show "extract_device_code (Bytes ?g) = Inr d" using d by simp
next
  assume a: "length (raw d) = 3 \<and> fr ! 0 \<noteq> 0x81"
  then obtain d0 d1 d2 where d: "raw d = [d0, d1, d2]" by (auto simp: len3)
  let ?g = "set_slice fr 15 18 (raw d)"
  have len: "length ?g = 22" using assms d by (simp add: set_slice_def)
  have "?g ! 0 \<noteq> 0x81 \<and> ?g ! 15 = d0 \<and> ?g ! 16 = d1 \<and> ?g ! 17 = d2"
    using assms a d by (simp add: set_slice_def nth_append)
  then have "extract_device_code (Bytes ?g) = Inr \<lparr>raw = [d0, d1, d2]\<rparr>"
    by (simp add: extract_device_code_22 [OF len])
  then show "extract_device_code (Bytes ?g) = Inr d" using d by simp
qed

theorem extract_device_code_by_kind_witness:
  "length [0x81, 0, 0, 0, 0, 0, 0, 0, 0, 0, 0, 0, 0, 0, 0, 1, 2, 3, 4, 5, 6, 0 :: byte] = 22
   \<and> extract_device_code
        (Bytes [0x81, 0, 0, 0, 0, 0, 0, 0, 0, 0, 0, 0, 0, 0, 0, 1, 2, 3, 4, 5, 6, 0])
       = Inr \<lparr>raw = [4, 5, 6]\<rparr>
   \<and> length (raw \<lparr>raw = [0x40, 0x53, 0xB8]\<rparr>) = 3
   \<and> [0x81, 0, 0, 0, 0, 0, 0, 0, 0, 0, 0, 0, 0, 0, 0, 1, 2, 3, 4, 5, 6, 0 :: byte] ! 0 = 0x81
   \<and> extract_device_code
        (Bytes [0x81, 0, 0, 0, 0, 0, 0, 0, 0, 0, 0, 0, 0, 0, 0, 1, 2, 3, 0x40, 0x53, 0xB8, 0])
       = Inr \<lparr>raw = [0x40, 0x53, 0xB8]\<rparr>
   \<and> length [0x0F, 0xFF, 0x0F, 0, 0, 0, 0, 0, 0, 0, 0, 0, 0, 0, 0, 1, 2, 3, 4, 5, 6, 0 :: byte] = 22
   \<and> [0x0F, 0xFF, 0x0F, 0, 0, 0, 0, 0, 0, 0, 0, 0, 0, 0, 0, 1, 2, 3, 4, 5, 6, 0 :: byte] ! 0 \<noteq> 0x81
   \<and> extract_device_code
        (Bytes [0x0F, 0xFF, 0x0F, 0, 0, 0, 0, 0, 0, 0, 0, 0, 0, 0, 0, 1, 2, 3, 4, 5, 6, 0])
       = Inr \<lparr>raw = [1, 2, 3]\<rparr>
   \<and> extract_device_code
        (Bytes [0x0F, 0xFF, 0x0F, 0, 0, 0, 0, 0, 0, 0, 0, 0, 0, 0, 0, 0x40, 0x53, 0xB8, 4, 5, 6, 0])
       = Inr \<lparr>raw = [0x40, 0x53, 0xB8]\<rparr>"
  using extract_device_code_by_kind
      [where fr = "[0x81, 0, 0, 0, 0, 0, 0, 0, 0, 0, 0, 0, 0, 0, 0, 1, 2, 3, 4, 5, 6, 0]"
         and d = "\<lparr>raw = [0x40, 0x53, 0xB8]\<rparr>"]
    extract_device_code_by_kind
      [where fr = "[0x0F, 0xFF, 0x0F, 0, 0, 0, 0, 0, 0, 0, 0, 0, 0, 0, 0, 1, 2, 3, 4, 5, 6, 0]"
         and d = "\<lparr>raw = [0x40, 0x53, 0xB8]\<rparr>"]
  by (simp add: set_slice_def)

lemma should_dispatch_22:
  assumes "length fr = 22"
  shows "should_dispatch (Bytes fr) =
     Inr (\<not> (fr ! 0 = 0x81 \<or> (fr ! 0 = 0x0F \<and> fr ! 1 = 0xFF \<and> fr ! 2 = 0x11)))"
  using assms by (simp add: should_dispatch_def FRAME_SIZE_BYTES_def getitem_22)

lemma is_ack_22: "length fr = 22 \<Longrightarrow> is_ack (Bytes fr) = Inr (fr ! 0 = 0x81)"
  by (simp add: is_ack_def FRAME_SIZE_BYTES_def getitem_22)

lemma is_status_response_22:
  "length fr = 22 \<Longrightarrow>
   is_status_response (Bytes fr) = Inr (fr ! 0 = 0x0F \<and> fr ! 1 = 0xFF \<and> fr ! 2 = 0x0F)"
  by (simp add: is_status_response_def FRAME_SIZE_BYTES_def getitem_22)

lemma is_broadcast_status_ack_22:
  "length fr = 22 \<Longrightarrow>
   is_broadcast_status_ack (Bytes fr) = Inr (fr ! 0 = 0x0F \<and> fr ! 1 = 0xFF \<and> fr ! 2 = 0x11)"
  by (simp add: is_broadcast_status_ack_def FRAME_SIZE_BYTES_def getitem_22)

lemma is_pair_response_22:
  "length fr = 22 \<Longrightarrow> is_pair_response (Bytes fr) = Inr (fr ! 0 = 0x06 \<and> fr ! 1 = 0x02)"
  by (simp add: is_pair_response_def FRAME_SIZE_BYTES_def getitem_22)

text \<open>
  C5. For every 22-byte frame \<^verbatim>\<open>should_dispatch\<close> is false exactly for an ACK (byte 0
  is 0x81) and for a broadcast status ack (bytes 0, 1, 2 are 0x0F, 0xFF, 0x11), and true for
  every other frame: a status response, a pair response, a frame whose byte 0 is no known
  message type.
\<close>

theorem should_dispatch_gate:
  assumes "length fr = 22"
  shows "should_dispatch (Bytes fr) =
           Inr (\<not> (fr ! 0 = 0x81 \<or> (fr ! 0 = 0x0F \<and> fr ! 1 = 0xFF \<and> fr ! 2 = 0x11)))
       \<and> (is_ack (Bytes fr) = Inr True \<longrightarrow> should_dispatch (Bytes fr) = Inr False)
       \<and> (is_broadcast_status_ack (Bytes fr) = Inr True
            \<longrightarrow> should_dispatch (Bytes fr) = Inr False)
       \<and> (is_status_response (Bytes fr) = Inr True \<longrightarrow> should_dispatch (Bytes fr) = Inr True)
       \<and> (is_pair_response (Bytes fr) = Inr True \<longrightarrow> should_dispatch (Bytes fr) = Inr True)
       \<and> ((\<forall>m. fr ! 0 \<noteq> MessageType_value m) \<longrightarrow> should_dispatch (Bytes fr) = Inr True)"
proof -
  have "fr ! 0 \<noteq> 0x81 \<and> fr ! 0 \<noteq> 0x0F" if "\<forall>m. fr ! 0 \<noteq> MessageType_value m"
    using that [rule_format, of ACK] that [rule_format, of STATUS] by simp
  then show ?thesis
    using assms
    by (auto simp: should_dispatch_22 is_ack_22 is_broadcast_status_ack_22
        is_status_response_22 is_pair_response_22)
qed

theorem should_dispatch_gate_witness:
  "length [0x0F, 0xFF, 0x11, 0, 0, 0, 0, 0, 0, 0, 0, 0, 0, 0, 0, 1, 2, 3, 4, 5, 6, 0 :: byte] = 22
   \<and> is_broadcast_status_ack
        (Bytes [0x0F, 0xFF, 0x11, 0, 0, 0, 0, 0, 0, 0, 0, 0, 0, 0, 0, 1, 2, 3, 4, 5, 6, 0]) = Inr True
   \<and> should_dispatch
        (Bytes [0x0F, 0xFF, 0x11, 0, 0, 0, 0, 0, 0, 0, 0, 0, 0, 0, 0, 1, 2, 3, 4, 5, 6, 0]) = Inr False
   \<and> is_ack (Bytes [0x81, 0, 0, 0, 0, 0, 0, 0, 0, 0, 0, 0, 0, 0, 0, 1, 2, 3, 4, 5, 6, 0]) = Inr True
   \<and> should_dispatch
        (Bytes [0x81, 0, 0, 0, 0, 0, 0, 0, 0, 0, 0, 0, 0, 0, 0, 1, 2, 3, 4, 5, 6, 0]) = Inr False
   \<and> is_status_response
        (Bytes [0x0F, 0xFF, 0x0F, 0, 0, 0, 0, 0, 0, 0, 0, 0, 0, 0, 0, 1, 2, 3, 4, 5, 6, 0]) = Inr True
   \<and> should_dispatch
        (Bytes [0x0F, 0xFF, 0x0F, 0, 0, 0, 0, 0, 0, 0, 0, 0, 0, 0, 0, 1, 2, 3, 4, 5, 6, 0]) = Inr True
   \<and> is_pair_response
        (Bytes [0x06, 0x02, 0, 0, 0, 0, 0, 0, 0, 0, 0, 0, 0, 0, 0, 1, 2, 3, 4, 5, 6, 0]) = Inr True
   \<and> should_dispatch
        (Bytes [0x06, 0x02, 0, 0, 0, 0, 0, 0, 0, 0, 0, 0, 0, 0, 0, 1, 2, 3, 4, 5, 6, 0]) = Inr True
   \<and> (\<forall>m. [0x55, 0, 0, 0, 0, 0, 0, 0, 0, 0, 0, 0, 0, 0, 0, 1, 2, 3, 4, 5, 6, 0 :: byte] ! 0
            \<noteq> MessageType_value m)
   \<and> should_dispatch
        (Bytes [0x55, 0, 0, 0, 0, 0, 0, 0, 0, 0, 0, 0, 0, 0, 0, 1, 2, 3, 4, 5, 6, 0]) = Inr True"
proof -
  have m: "\<forall>m. (0x55 :: byte) \<noteq> MessageType_value m"
  proof
    fix m show "(0x55 :: byte) \<noteq> MessageType_value m" by (cases m) simp_all
  qed
  show ?thesis
    using m
      should_dispatch_gate
        [where fr = "[0x0F, 0xFF, 0x11, 0, 0, 0, 0, 0, 0, 0, 0, 0, 0, 0, 0, 1, 2, 3, 4, 5, 6, 0]"]
      should_dispatch_gate
        [where fr = "[0x81, 0, 0, 0, 0, 0, 0, 0, 0, 0, 0, 0, 0, 0, 0, 1, 2, 3, 4, 5, 6, 0]"]
      should_dispatch_gate
        [where fr = "[0x0F, 0xFF, 0x0F, 0, 0, 0, 0, 0, 0, 0, 0, 0, 0, 0, 0, 1, 2, 3, 4, 5, 6, 0]"]
      should_dispatch_gate
        [where fr = "[0x06, 0x02, 0, 0, 0, 0, 0, 0, 0, 0, 0, 0, 0, 0, 0, 1, 2, 3, 4, 5, 6, 0]"]
      should_dispatch_gate
        [where fr = "[0x55, 0, 0, 0, 0, 0, 0, 0, 0, 0, 0, 0, 0, 0, 0, 1, 2, 3, 4, 5, 6, 0]"]
    by (simp add: is_ack_22 is_broadcast_status_ack_22 is_status_response_22 is_pair_response_22)
qed

lemma mod_128: "(x * 256 + y) mod 128 = y mod (128::int)"
proof -
  have "x * 256 + y = y + (x * 2) * 128" by simp
  then show ?thesis by (simp only: mod_mult_self1)
qed

lemma extract_bits_0_6: "extract_bits w 0 6 = take_bit 7 w"
  by (simp add: extract_bits_def take_bit_eq_mask mask_eq_exp_minus_1)

lemma read_word_7: "read_word fr 7 = push_bit 8 (uint (fr ! 10)) OR uint (fr ! 11)"
  by (simp add: read_word_def FRAME_SIZE_BYTES_def)

lemma take_bit_7_word: "take_bit 7 (push_bit 8 (a::int) OR b) = take_bit 7 b"
  by (rule bit_eqI) (auto simp: bit_simps)

lemma bits_word_at_7: "bits (word_at fr 7) 0 6 = take_bit 7 (uint (fr ! 11))"
  by (simp add: bits_def word_at_def take_bit_eq_mod mod_128)

lemma parse_status_type40_status:
  assumes "length fr = 22" "fr ! 0 = 0x0F" "fr ! 1 = 0xFF" "fr ! 2 = 0x0F"
  shows "\<exists>st. parse_status_type40 (Bytes fr) = Inr st \<and> moving st = ''stop''
            \<and> position st = Some (extract_bits (read_word fr 7) 0 6)"
proof -
  have "is_status_response (Bytes fr) = Inr True"
    using assms by (simp add: is_status_response_22)
  then show ?thesis
    using assms(1) by (simp add: parse_status_type40_def FRAME_SIZE_BYTES_def Let_def)
qed

lemma parse_status_type40_other:
  assumes "length fr = 22" "\<not> (fr ! 0 = 0x0F \<and> fr ! 1 = 0xFF \<and> fr ! 2 = 0x0F)"
  shows "parse_status_type40 (Bytes fr) = Inr DeviceStatus_default"
proof -
  have "is_status_response (Bytes fr) = Inr False"
    using assms by (simp add: is_status_response_22)
  then show ?thesis
    using assms(1) by (simp add: parse_status_type40_def FRAME_SIZE_BYTES_def)
qed

text \<open>
  C6. For every 22-byte frame whose bytes 0, 1, 2 are 0x0F, 0xFF, 0x0F the parsed position
  is bits 0 to 6 of the big-endian word at frame bytes 10 and 11 (word 7), so 42 when
  those bits hold 42; and for every 22-byte frame, a status response or not, the moving
  field of the result is \<^verbatim>\<open>"stop"\<close>.
\<close>

theorem parse_status_position_and_moving:
  assumes "length fr = 22"
  shows "\<exists>st. parse_status_type40 (Bytes fr) = Inr st
            \<and> moving st = ''stop''
            \<and> (fr ! 0 = 0x0F \<and> fr ! 1 = 0xFF \<and> fr ! 2 = 0x0F
                 \<longrightarrow> position st = Some (bits (word_at fr 7) 0 6)
                   \<and> (bits (word_at fr 7) 0 6 = 42 \<longrightarrow> position st = Some 42))"
proof (cases "fr ! 0 = 0x0F \<and> fr ! 1 = 0xFF \<and> fr ! 2 = 0x0F")
  case True
  then obtain st where st: "parse_status_type40 (Bytes fr) = Inr st" "moving st = ''stop''"
      "position st = Some (extract_bits (read_word fr 7) 0 6)"
    using parse_status_type40_status [OF assms] by blast
  have "extract_bits (read_word fr 7) 0 6 = bits (word_at fr 7) 0 6"
    unfolding extract_bits_0_6 read_word_7 take_bit_7_word bits_word_at_7 by (rule refl)
  with st show ?thesis by auto
next
  case False
  then show ?thesis
    using parse_status_type40_other [OF assms] by (simp add: DeviceStatus_default_def)
qed

theorem parse_status_position_and_moving_witness:
  "length [0x0F, 0xFF, 0x0F, 0x21, 0x85, 0, 0, 0, 0, 0, 0x01, 0xAA, 0x1F, 0, 0,
           0x40, 0x53, 0xB8, 0, 0, 0, 0 :: byte] = 22
   \<and> bits (word_at [0x0F, 0xFF, 0x0F, 0x21, 0x85, 0, 0, 0, 0, 0, 0x01, 0xAA, 0x1F, 0, 0,
                     0x40, 0x53, 0xB8, 0, 0, 0, 0] 7) 0 6 = 42
   \<and> (\<exists>st. parse_status_type40
               (Bytes [0x0F, 0xFF, 0x0F, 0x21, 0x85, 0, 0, 0, 0, 0, 0x01, 0xAA, 0x1F, 0, 0,
                       0x40, 0x53, 0xB8, 0, 0, 0, 0]) = Inr st
           \<and> moving st = ''stop'' \<and> position st = Some 42)"
  using parse_status_position_and_moving
      [where fr = "[0x0F, 0xFF, 0x0F, 0x21, 0x85, 0, 0, 0, 0, 0, 0x01, 0xAA, 0x1F, 0, 0,
                    0x40, 0x53, 0xB8, 0, 0, 0, 0]"]
  by (simp add: bits_def word_at_def)

section \<open>Malformed input\<close>

text \<open>
  What holds of the constructors: an identifier is made from a string only if the string
  is exactly six hexadecimal digits, and a byte sequence is taken as a frame only if it
  has 22 bytes.
\<close>

lemma hex_digit_not_space: "hex_digit c = Some n \<Longrightarrow> \<not> is_space c"
  by (auto simp: hex_digit_def is_space_def Let_def split: if_splits)

lemma fromhex_Inr:
  "fromhex s = Inr bs \<Longrightarrow>
   length s = 2 * length bs + length (filter is_space s)
   \<and> (\<forall>c\<in>set s. is_space c \<or> hex_digit c \<noteq> None)"
proof (induction s arbitrary: bs rule: fromhex.induct)
  case 1
  then show ?case by simp
next
  case (2 c)
  then show ?case by (simp split: if_splits)
next
  case (3 c d cs)
  show ?case
  proof (cases "is_space c")
    case True
    with 3 show ?thesis by simp
  next
    case False
    with "3.prems" obtain hi lo bs' where h: "hex_digit c = Some hi" "hex_digit d = Some lo"
      "fromhex cs = Inr bs'" "bs = of_nat (hi * 16 + lo) # bs'"
      by (auto split: option.splits sum.splits)
    from "3.IH"(2) [OF False refl h(1) h(2) h(3)] h False hex_digit_not_space [OF h(2)]
    show ?thesis by simp
  qed
qed

lemma from_hex_Inr:
  assumes "from_hex s = Inr d"
  shows "length s = 6 \<and> (\<forall>c\<in>set s. hex_digit c \<noteq> None) \<and> length (raw d) = 3"
proof -
  from assms have len: "length s = 6"
    by (simp add: from_hex_def split: if_splits)
  from assms len obtain bs where bs: "fromhex s = Inr bs" "DuoFernId_init bs = Inr d"
    by (auto simp: from_hex_def split: sum.splits)
  from bs(2) have d: "length bs = 3" "raw d = bs"
    by (auto simp: DuoFernId_init_def split: if_splits)
  from fromhex_Inr [OF bs(1)] len d
  have "filter is_space s = []" and *: "\<forall>c\<in>set s. is_space c \<or> hex_digit c \<noteq> None"
    by auto
  then have "\<forall>c\<in>set s. \<not> is_space c"
    by (simp add: filter_empty_conv)
  with * len d show ?thesis by auto
qed

lemma ensure_bytes_Bytes_Inr:
  "ensure_bytes (Bytes b) = Inr fr \<Longrightarrow> length b = 22 \<and> fr = b"
  by (simp add: FRAME_SIZE_BYTES_def split: if_splits)

text \<open>
  C8. The string branch of \<^verbatim>\<open>_ensure_bytes\<close> checks the number of characters only.
  A string of 44 characters that holds fifteen pairs of digits separated by blanks passes
  the check, \<^verbatim>\<open>bytearray.fromhex\<close> skips the blanks, and the decoder goes on with a
  bytearray of 15 bytes: no error is raised for an input that is not 22 bytes.
\<close>

theorem ensure_bytes_accepts_short_hex_string:
  "length ''00 00 00 00 00 00 00 00 00 00 00 00 00 00 00'' = 44
   \<and> ensure_bytes (Str ''00 00 00 00 00 00 00 00 00 00 00 00 00 00 00'')
       = Inr [0, 0, 0, 0, 0, 0, 0, 0, 0, 0, 0, 0, 0, 0, 0]
   \<and> is_ack (Str ''00 00 00 00 00 00 00 00 00 00 00 00 00 00 00'') = Inr False"
  by (simp add: FRAME_SIZE_HEX_def is_space_def hex_digit_def is_ack_def getitem_def)

section \<open>The byte-stream framer: frames are the slices of the stream\<close>

lemma extract_frames_spec:
  "extract_frames p = (p', out) \<Longrightarrow>
   concat (map delivered out) @ buffer p' = buffer p
   \<and> (\<forall>d\<in>set out. length (delivered d) = 22)
   \<and> length (buffer p') < 22
   \<and> flush_handle p' = flush_handle p"
proof (induction p arbitrary: p' out rule: extract_frames.induct)
  case (1 p)
  show ?case
  proof (cases "FRAME_SIZE_BYTES \<le> length (buffer p)")
    case False
    with "1.prems" show ?thesis
      by (simp add: extract_frames.simps [of p] FRAME_SIZE_BYTES_def)
  next
    case True
    define frame where "frame = take FRAME_SIZE_BYTES (buffer p)"
    define q where "q = p\<lparr>buffer := drop FRAME_SIZE_BYTES (buffer p)\<rparr>"
    have fl: "length frame = 22"
      using True by (simp add: frame_def FRAME_SIZE_BYTES_def)
    have fb: "frame @ buffer q = buffer p"
      by (simp add: frame_def q_def)
    show ?thesis
    proof (cases "init_response_future q = Some Pending")
      case pend: True
      obtain p1 out1 where r: "extract_frames (q\<lparr>init_response_future := Some (Done frame)\<rparr>) = (p1, out1)"
        by (cases "extract_frames (q\<lparr>init_response_future := Some (Done frame)\<rparr>)")
      from "1.prems" True pend r have eq: "p' = p1" "out = Set_result frame # out1"
        by (simp_all add: extract_frames.simps [of p] Let_def frame_def [symmetric] q_def [symmetric])
      from "1.IH"(1) [OF True frame_def q_def pend r]
      show ?thesis using eq fl fb by (auto simp: q_def)
    next
      case npend: False
      obtain p1 out1 where r: "extract_frames q = (p1, out1)"
        by (cases "extract_frames q")
      from "1.prems" True npend r have eq: "p' = p1" "out = Frame_callback frame # out1"
        by (simp_all add: extract_frames.simps [of p] Let_def frame_def [symmetric] q_def [symmetric])
      from "1.IH"(2) [OF True frame_def q_def npend r]
      show ?thesis using eq fl fb by (auto simp: q_def)
    qed
  qed
qed

lemma data_received_spec:
  assumes "data_received p chunk = (p', out)"
  shows "concat (map delivered out) @ buffer p' = buffer p @ chunk
   \<and> (\<forall>d\<in>set out. length (delivered d) = 22)
   \<and> length (buffer p') < 22
   \<and> (flush_handle p' \<longleftrightarrow> buffer p' \<noteq> [])"
proof -
  define q where "q = p\<lparr>flush_handle := False, buffer := buffer p @ chunk\<rparr>"
  obtain p1 out1 where r: "extract_frames q = (p1, out1)"
    by (cases "extract_frames q")
  from assms r have eq: "out = out1"
      "p' = (if length (buffer p1) > 0 then p1\<lparr>flush_handle := True\<rparr> else p1)"
    by (simp_all add: data_received_def Let_def q_def)
  from extract_frames_spec [OF r] eq show ?thesis
    by (auto simp: q_def)
qed

lemma feed_spec:
  "feed p chunks = (p', out) \<Longrightarrow>
   concat (map delivered out) @ buffer p' = buffer p @ concat chunks
   \<and> (\<forall>d\<in>set out. length (delivered d) = 22)
   \<and> (length (buffer p) < 22 \<longrightarrow> length (buffer p') < 22)"
proof (induction chunks arbitrary: p p' out)
  case Nil
  then show ?case by simp
next
  case (Cons chunk chunks)
  obtain p1 out1 where a: "data_received p chunk = (p1, out1)"
    by (cases "data_received p chunk")
  obtain p2 out2 where b: "feed p1 chunks = (p2, out2)"
    by (cases "feed p1 chunks")
  from Cons.prems a b have eq: "p' = p2" "out = out1 @ out2"
    by simp_all
  note A = data_received_spec [OF a] and B = Cons.IH [OF b]
  have "concat (map delivered out) @ buffer p'
        = concat (map delivered out1) @ (concat (map delivered out2) @ buffer p2)"
    by (simp add: eq)
  also have "\<dots> = concat (map delivered out1) @ (buffer p1 @ concat chunks)"
    using B by simp
  also have "\<dots> = (concat (map delivered out1) @ buffer p1) @ concat chunks"
    by simp
  also have "\<dots> = buffer p @ concat (chunk # chunks)"
    using A by simp
  finally have 1: "concat (map delivered out) @ buffer p' = buffer p @ concat (chunk # chunks)" .
  have 2: "\<forall>d\<in>set out. length (delivered d) = 22"
    using A B eq by auto
  have 3: "length (buffer p') < 22"
    using A B eq by simp
  from 1 2 3 show ?case by simp
qed

lemma nth_slices:
  "\<forall>f\<in>set fs. length f = 22 \<Longrightarrow> k < length fs \<Longrightarrow>
   take 22 (drop (22 * k) (concat fs @ r)) = fs ! k"
proof (induction fs arbitrary: k)
  case Nil
  then show ?case by simp
next
  case (Cons f fs)
  show ?case
  proof (cases k)
    case 0
    with Cons.prems show ?thesis by simp
  next
    case (Suc j)
    with Cons.prems have "take 22 (drop (22 * j) (concat fs @ r)) = fs ! j"
      by (intro Cons.IH) auto
    moreover have "drop (22 * k) (concat (f # fs) @ r) = drop (22 * j) (concat fs @ r)"
      using Cons.prems Suc by simp
    ultimately show ?thesis using Suc by simp
  qed
qed

lemma length_concat_22:
  "\<forall>f\<in>set fs. length f = 22 \<Longrightarrow> length (concat fs) = 22 * length fs"
  by (induction fs) auto

lemma framing_unique:
  assumes "concat fs @ r = stream" and "\<forall>f\<in>set fs. length f = 22" and "length r < 22"
  shows "fs = slices stream \<and> r = drop (22 * (length stream div 22)) stream
         \<and> length r = length stream mod 22"
proof -
  have len: "length stream = 22 * length fs + length r"
  proof -
    have "length stream = length (concat fs) + length r"
      unfolding assms(1) [symmetric] by simp
    then show ?thesis by (simp add: length_concat_22 [OF assms(2)])
  qed
  have d: "length stream div 22 = length fs" and m: "length stream mod 22 = length r"
    using len assms(3) by simp_all
  have l: "length (slices stream) = length fs"
    by (simp add: slices_def d)
  have "slices stream ! k = fs ! k" if "k < length fs" for k
  proof -
    have "slices stream ! k = take 22 (drop (22 * k) stream)"
      using that by (simp add: slices_def d)
    also have "\<dots> = take 22 (drop (22 * k) (concat fs @ r))"
      by (simp only: assms(1))
    also have "\<dots> = fs ! k"
      by (rule nth_slices [OF assms(2) that])
    finally show ?thesis .
  qed
  with l have "fs = slices stream"
    by (simp add: list_eq_iff_nth_eq)
  moreover have "r = drop (22 * (length stream div 22)) stream"
  proof -
    have "drop (22 * length fs) (concat fs @ r) = r"
      by (simp add: length_concat_22 [OF assms(2)])
    then show ?thesis by (simp only: d assms(1))
  qed
  ultimately show ?thesis using m by simp
qed


lemma extract_frames_callback:
  "init_response_future p \<noteq> Some Pending \<Longrightarrow> extract_frames p = (p', out) \<Longrightarrow>
   \<forall>d\<in>set out. \<exists>f. d = Frame_callback f"
proof (induction p arbitrary: p' out rule: extract_frames.induct)
  case (1 p)
  show ?case
  proof (cases "FRAME_SIZE_BYTES \<le> length (buffer p)")
    case False
    with "1.prems" show ?thesis
      by (simp add: extract_frames.simps [of p])
  next
    case True
    define frame where "frame = take FRAME_SIZE_BYTES (buffer p)"
    define q where "q = p\<lparr>buffer := drop FRAME_SIZE_BYTES (buffer p)\<rparr>"
    have npend: "init_response_future q \<noteq> Some Pending"
      using "1.prems"(1) by (simp add: q_def)
    obtain p1 out1 where r: "extract_frames q = (p1, out1)"
      by (cases "extract_frames q")
    from "1.prems" True npend r have eq: "out = Frame_callback frame # out1"
      by (simp add: extract_frames.simps [of p] Let_def frame_def [symmetric] q_def [symmetric])
    from "1.IH"(2) [OF True frame_def q_def npend npend r]
    show ?thesis using eq by simp
  qed
qed

lemma data_received_callback:
  assumes "init_response_future p \<noteq> Some Pending"
  shows "\<forall>d\<in>set (snd (data_received p chunk)). \<exists>f. d = Frame_callback f \<and> length f = 22"
proof -
  obtain p' out where d: "data_received p chunk = (p', out)"
    by (cases "data_received p chunk")
  define q where "q = p\<lparr>flush_handle := False, buffer := buffer p @ chunk\<rparr>"
  obtain p1 out1 where r: "extract_frames q = (p1, out1)"
    by (cases "extract_frames q")
  from d r have eq: "out = out1"
    by (simp add: data_received_def Let_def q_def)
  have "init_response_future q \<noteq> Some Pending"
    using assms by (simp add: q_def)
  from extract_frames_callback [OF this r] data_received_spec [OF d] eq d
  show ?thesis by fastforce
qed

text \<open>
  C3. For every sequence of chunks fed to a framer that holds less than a frame, the
  frames emitted are, in order, the consecutive 22-byte slices of the stream (the bytes
  buffered before, then the chunks), and what stays in the buffer is the rest of the
  stream, of length \<open>length stream mod 22\<close>. A chunk that leaves bytes in the buffer arms
  the flush timer; the flush empties the buffer, and when the armed timer has expired, 22
  fresh bytes give exactly one frame, made of those bytes alone.
\<close>

theorem framer_emits_consecutive_slices:
  assumes "length (buffer p) < 22"
  shows "map delivered (snd (feed p chunks)) = slices (buffer p @ concat chunks)
       \<and> buffer (fst (feed p chunks))
           = drop (22 * (length (buffer p @ concat chunks) div 22)) (buffer p @ concat chunks)
       \<and> length (buffer (fst (feed p chunks))) = length (buffer p @ concat chunks) mod 22
       \<and> (buffer (fst (data_received p chunk)) \<noteq> []
            \<longrightarrow> flush_handle (fst (data_received p chunk)))
       \<and> buffer (flush_buffer p) = []
       \<and> (flush_handle p \<longrightarrow> buffer (timer_expires p) = [])
       \<and> (flush_handle p \<and> length fresh = 22
            \<longrightarrow> map delivered (snd (data_received (timer_expires p) fresh)) = [fresh]
              \<and> buffer (fst (data_received (timer_expires p) fresh)) = [])"
proof -
  obtain p' out where f: "feed p chunks = (p', out)"
    by (cases "feed p chunks")
  from feed_spec [OF f] assms
  have "concat (map delivered out) @ buffer p' = buffer p @ concat chunks"
    "\<forall>f\<in>set (map delivered out). length f = 22" "length (buffer p') < 22"
    by auto
  from framing_unique [OF this]
  have A: "map delivered (snd (feed p chunks)) = slices (buffer p @ concat chunks)
       \<and> buffer (fst (feed p chunks))
           = drop (22 * (length (buffer p @ concat chunks) div 22)) (buffer p @ concat chunks)
       \<and> length (buffer (fst (feed p chunks))) = length (buffer p @ concat chunks) mod 22"
    unfolding f fst_conv snd_conv .
  obtain p1 out1 where d: "data_received p chunk = (p1, out1)"
    by (cases "data_received p chunk")
  from data_received_spec [OF d] d
  have B: "buffer (fst (data_received p chunk)) \<noteq> []
            \<longrightarrow> flush_handle (fst (data_received p chunk))"
    by simp
  have C: "buffer (flush_buffer p) = []" "flush_handle p \<longrightarrow> buffer (timer_expires p) = []"
    by (simp_all add: flush_buffer_def timer_expires_def)
  have D: "map delivered (snd (data_received (timer_expires p) fresh)) = [fresh]
         \<and> buffer (fst (data_received (timer_expires p) fresh)) = []"
    if fr: "flush_handle p \<and> length fresh = 22"
  proof -
    obtain p2 out2 where e: "data_received (timer_expires p) fresh = (p2, out2)"
      by (cases "data_received (timer_expires p) fresh")
    from data_received_spec [OF e] C(2) fr
    have "concat (map delivered out2) @ buffer p2 = fresh"
      "\<forall>f\<in>set (map delivered out2). length f = 22" "length (buffer p2) < 22"
      by auto
    from framing_unique [OF this] fr e show ?thesis
      by (simp add: slices_def)
  qed
  from A B C D show ?thesis by blast
qed

theorem framer_emits_consecutive_slices_witness:
  "length (buffer DuoFernSerialProtocol_init) < 22
   \<and> map delivered (snd (feed DuoFernSerialProtocol_init
        [[0x0F, 0xFF, 0x0F, 0x21, 0x85, 0x00, 0x17, 0x2C, 0x00, 0x64],
         [0x01, 0xAA, 0x1F, 0x00, 0x00, 0x40, 0x53, 0xB8, 0x09, 0x5D, 0x3E, 0x7A,
          0x06, 0x02, 0xC4, 0x10, 0x9B, 0x20, 0xD7, 0x30, 0x4F, 0x63, 0xE1,
          0x77, 0x08, 0xBE, 0x92, 0x40, 0x53, 0xB9, 0x6F, 0x12, 0x34, 0x5C]]))
      = [[0x0F, 0xFF, 0x0F, 0x21, 0x85, 0x00, 0x17, 0x2C, 0x00, 0x64,
          0x01, 0xAA, 0x1F, 0x00, 0x00, 0x40, 0x53, 0xB8, 0x09, 0x5D, 0x3E, 0x7A],
         [0x06, 0x02, 0xC4, 0x10, 0x9B, 0x20, 0xD7, 0x30, 0x4F, 0x63, 0xE1,
          0x77, 0x08, 0xBE, 0x92, 0x40, 0x53, 0xB9, 0x6F, 0x12, 0x34, 0x5C]]
   \<and> buffer (fst (feed DuoFernSerialProtocol_init
        [[0x0F, 0xFF, 0x0F, 0x21, 0x85, 0x00, 0x17, 0x2C, 0x00, 0x64],
         [0x01, 0xAA, 0x1F, 0x00, 0x00, 0x40, 0x53, 0xB8, 0x09, 0x5D, 0x3E, 0x7A,
          0x06, 0x02, 0xC4, 0x10, 0x9B, 0x20, 0xD7, 0x30, 0x4F, 0x63, 0xE1,
          0x77, 0x08, 0xBE, 0x92, 0x40, 0x53, 0xB9, 0x6F, 0x12, 0x34, 0x5C]])) = []
   \<and> fst (feed DuoFernSerialProtocol_init
        [[0x0F, 0xFF, 0x0F, 0x21, 0x85, 0x00, 0x17, 0x2C, 0x00, 0x64,
          0x01, 0xAA, 0x1F, 0x00, 0x00, 0x40, 0x53, 0xB8, 0x09, 0x5D, 0x3E, 0x7A],
         [0xDE, 0xAD, 0xBE, 0xEF, 0x42]])
      = \<lparr>buffer = [0xDE, 0xAD, 0xBE, 0xEF, 0x42], flush_handle = True,
         init_response_future = None\<rparr>
   \<and> length (buffer \<lparr>buffer = [0xDE, 0xAD, 0xBE, 0xEF, 0x42], flush_handle = True,
                   init_response_future = None\<rparr>) < 22
   \<and> flush_handle \<lparr>buffer = [0xDE, 0xAD, 0xBE, 0xEF, 0x42], flush_handle = True,
                   init_response_future = None\<rparr>
   \<and> length [0x81, 0x3C, 0xA5, 0x0E, 0x71, 0xD2, 0x48, 0x9F, 0x16, 0xEB, 0x27,
         0xB3, 0x5A, 0xC8, 0x04, 0x6D, 0xF1, 0x39, 0x8E, 0x52, 0xA7, 0x1B :: byte] = 22
   \<and> map delivered (snd (data_received
        (timer_expires \<lparr>buffer = [0xDE, 0xAD, 0xBE, 0xEF, 0x42], flush_handle = True,
                   init_response_future = None\<rparr>)
        [0x81, 0x3C, 0xA5, 0x0E, 0x71, 0xD2, 0x48, 0x9F, 0x16, 0xEB, 0x27,
         0xB3, 0x5A, 0xC8, 0x04, 0x6D, 0xF1, 0x39, 0x8E, 0x52, 0xA7, 0x1B]))
      = [[0x81, 0x3C, 0xA5, 0x0E, 0x71, 0xD2, 0x48, 0x9F, 0x16, 0xEB, 0x27,
         0xB3, 0x5A, 0xC8, 0x04, 0x6D, 0xF1, 0x39, 0x8E, 0x52, 0xA7, 0x1B]]"
proof -
  have run: "fst (feed DuoFernSerialProtocol_init
        [[0x0F, 0xFF, 0x0F, 0x21, 0x85, 0x00, 0x17, 0x2C, 0x00, 0x64,
          0x01, 0xAA, 0x1F, 0x00, 0x00, 0x40, 0x53, 0xB8, 0x09, 0x5D, 0x3E, 0x7A],
         [0xDE, 0xAD, 0xBE, 0xEF, 0x42]])
      = \<lparr>buffer = [0xDE, 0xAD, 0xBE, 0xEF, 0x42], flush_handle = True,
         init_response_future = None\<rparr>"
    by (simp add: DuoFernSerialProtocol_init_def data_received_def extract_frames.simps
        FRAME_SIZE_BYTES_def)
  show ?thesis
    using run framer_emits_consecutive_slices
      [where p = DuoFernSerialProtocol_init
         and chunks = "[[0x0F, 0xFF, 0x0F, 0x21, 0x85, 0x00, 0x17, 0x2C, 0x00, 0x64],
         [0x01, 0xAA, 0x1F, 0x00, 0x00, 0x40, 0x53, 0xB8, 0x09, 0x5D, 0x3E, 0x7A,
          0x06, 0x02, 0xC4, 0x10, 0x9B, 0x20, 0xD7, 0x30, 0x4F, 0x63, 0xE1,
          0x77, 0x08, 0xBE, 0x92, 0x40, 0x53, 0xB9, 0x6F, 0x12, 0x34, 0x5C]]"]
    framer_emits_consecutive_slices
      [where p = "\<lparr>buffer = [0xDE, 0xAD, 0xBE, 0xEF, 0x42], flush_handle = True,
                   init_response_future = None\<rparr>"
         and fresh = "[0x81, 0x3C, 0xA5, 0x0E, 0x71, 0xD2, 0x48, 0x9F, 0x16, 0xEB, 0x27,
         0xB3, 0x5A, 0xC8, 0x04, 0x6D, 0xF1, 0x39, 0x8E, 0x52, 0xA7, 0x1B]"]
    by (simp add: DuoFernSerialProtocol_init_def slices_def upt_conv_Cons)
qed

section \<open>The stick: sending and receiving\<close>

text \<open>
  What holds of \<^verbatim>\<open>send_command\<close>: it fails with a connection error when the serial
  port is not open, and it enqueues the frame when the stick is connected, that is when
  the port is open and the initialization has completed.
\<close>

lemma send_command_closed_or_connected:
  "(\<not> connected_flag s \<longrightarrow> send_command fr s = Inl ConnectionError)
   \<and> (connected s \<longrightarrow> send_command fr s = Inr (s\<lparr>send_queue := send_queue s @ [fr]\<rparr>))"
  by (simp add: send_command_def connected_def)

text \<open>
  C9. \<^verbatim>\<open>send_command\<close> is to fail with a connection error whenever the stick is not
  connected, connected meaning that the serial port is open and the initialization
  handshake has completed (the property \<^verbatim>\<open>connected\<close>). The code tests the flag
  \<^verbatim>\<open>_connected\<close> alone, which \<^verbatim>\<open>connect\<close> sets as soon as the port is open. After
  a \<^verbatim>\<open>connect\<close> that got no reply and failed with a connection error, the port is
  open, the initialization has not completed, the queue processor has not been started and
  the stick is not connected; \<^verbatim>\<open>send_command\<close> raises nothing there and puts the frame
  into the send queue.
\<close>

theorem send_command_enqueues_after_failed_handshake:
  "fst (connect [] (DuoFernStick_init \<lparr>raw = [0x6F, 0x12, 0x34]\<rparr> [])) = Inl ConnectionError
   \<and> connected_flag (snd (snd (connect [] (DuoFernStick_init \<lparr>raw = [0x6F, 0x12, 0x34]\<rparr> [])))) = True
   \<and> initialized (snd (snd (connect [] (DuoFernStick_init \<lparr>raw = [0x6F, 0x12, 0x34]\<rparr> [])))) = False
   \<and> queue_task (snd (snd (connect [] (DuoFernStick_init \<lparr>raw = [0x6F, 0x12, 0x34]\<rparr> [])))) = False
   \<and> connected (snd (snd (connect [] (DuoFernStick_init \<lparr>raw = [0x6F, 0x12, 0x34]\<rparr> [])))) = False
   \<and> send_command build_ack (snd (snd (connect [] (DuoFernStick_init \<lparr>raw = [0x6F, 0x12, 0x34]\<rparr> []))))
       = Inr ((snd (snd (connect [] (DuoFernStick_init \<lparr>raw = [0x6F, 0x12, 0x34]\<rparr> []))))\<lparr>send_queue := [build_ack]\<rparr>)"
  by (simp add: connect_def init_sequence_def INIT_RETRY_COUNT_def eval_nat_numeral
      init_attempt_def send_and_wait_def write_frame_def DuoFernStick_init_def
      connected_def send_command_def)

lemma build_ack_explicit:
  "build_ack = [0x81, 0, 0, 0, 0, 0, 0, 0, 0, 0, 0, 0, 0, 0, 0, 0, 0, 0, 0, 0, 0, 0]"
  by (simp add: build_ack_def frame_zero_simp)

text \<open>
  C10. A complete 22-byte frame that reaches \<^verbatim>\<open>_on_frame_received\<close> while the transport
  is open: if its byte 0 is not 0x81 the stick writes exactly one ACK frame (byte 0 is
  0x81, every other byte zero) to the transport, and only then passes the frame to the
  message callback, which it does not do at all for a broadcast status ack; if the frame
  is itself an ACK nothing is written and nothing dispatched, and the ACK event is set.
  While no response future of the handshake is pending, every frame that the framer
  completes has 22 bytes and goes to this frame callback.
\<close>

theorem ack_before_dispatch:
  assumes "length fr = 22" and "transport s"
  shows "(fr ! 0 \<noteq> 0x81 \<longrightarrow>
            (\<exists>s'. on_frame_received fr s = Inr s'
               \<and> trace s' = trace s @ Tx build_ack
                    # (if fr ! 0 = 0x0F \<and> fr ! 1 = 0xFF \<and> fr ! 2 = 0x11 then []
                       else [Dispatch fr])))
       \<and> (fr ! 0 = 0x81 \<longrightarrow>
            (\<exists>s'. on_frame_received fr s = Inr s' \<and> trace s' = trace s \<and> ack_event s'))
       \<and> build_ack ! 0 = 0x81 \<and> length build_ack = 22
       \<and> (\<forall>i<22. 0 < i \<longrightarrow> build_ack ! i = 0)
       \<and> (init_response_future p \<noteq> Some Pending \<longrightarrow>
            (\<forall>d\<in>set (snd (data_received p chunk)).
               \<exists>f. d = Frame_callback f \<and> length f = 22))"
proof -
  have "\<forall>i<22. 0 < i \<longrightarrow> build_ack ! i = 0"
    unfolding all_less_22 by (simp add: build_ack_explicit)
  then show ?thesis
    using assms data_received_callback [of p chunk]
    by (simp add: on_frame_received_def is_ack_22 should_dispatch_22 write_frame_def
        build_ack_explicit)
qed

theorem ack_before_dispatch_witness:
  "length [0x0F, 0xFF, 0x0F, 0x21, 0x85, 0, 0, 0, 0, 0, 0x01, 0xAA, 0x1F, 0, 0,
           0x40, 0x53, 0xB8, 0, 0, 0, 0 :: byte] = 22
   \<and> transport ((DuoFernStick_init \<lparr>raw = [0x6F, 0x12, 0x34]\<rparr> [])\<lparr>transport := True\<rparr>)
   \<and> (\<exists>s'. on_frame_received
               [0x0F, 0xFF, 0x0F, 0x21, 0x85, 0, 0, 0, 0, 0, 0x01, 0xAA, 0x1F, 0, 0,
                0x40, 0x53, 0xB8, 0, 0, 0, 0]
               ((DuoFernStick_init \<lparr>raw = [0x6F, 0x12, 0x34]\<rparr> [])\<lparr>transport := True\<rparr>) = Inr s'
            \<and> trace s' = [Tx build_ack,
                 Dispatch [0x0F, 0xFF, 0x0F, 0x21, 0x85, 0, 0, 0, 0, 0, 0x01, 0xAA, 0x1F, 0, 0,
                           0x40, 0x53, 0xB8, 0, 0, 0, 0]])
   \<and> (\<exists>s'. on_frame_received
               [0x0F, 0xFF, 0x11, 0, 0, 0, 0, 0, 0, 0, 0, 0, 0, 0, 0, 0, 0, 0, 0, 0, 0, 0]
               ((DuoFernStick_init \<lparr>raw = [0x6F, 0x12, 0x34]\<rparr> [])\<lparr>transport := True\<rparr>) = Inr s'
            \<and> trace s' = [Tx build_ack])
   \<and> (\<exists>s'. on_frame_received
               [0x81, 0, 0, 0, 0, 0, 0, 0, 0, 0, 0, 0, 0, 0, 0, 0, 0, 0, 0, 0, 0, 0]
               ((DuoFernStick_init \<lparr>raw = [0x6F, 0x12, 0x34]\<rparr> [])\<lparr>transport := True\<rparr>) = Inr s'
            \<and> trace s' = [] \<and> ack_event s')
   \<and> (5::nat) < 22 \<and> (0::nat) < 5 \<and> build_ack ! 5 = 0
   \<and> init_response_future DuoFernSerialProtocol_init \<noteq> Some Pending
   \<and> snd (data_received DuoFernSerialProtocol_init
            [0x0F, 0xFF, 0x0F, 0x21, 0x85, 0, 0, 0, 0, 0, 0x01, 0xAA, 0x1F, 0, 0,
             0x40, 0x53, 0xB8, 0, 0, 0, 0])
       = [Frame_callback
            [0x0F, 0xFF, 0x0F, 0x21, 0x85, 0, 0, 0, 0, 0, 0x01, 0xAA, 0x1F, 0, 0,
             0x40, 0x53, 0xB8, 0, 0, 0, 0]]"
proof -
  have np: "init_response_future DuoFernSerialProtocol_init \<noteq> Some Pending"
    by (simp add: DuoFernSerialProtocol_init_def)
  have run: "snd (data_received DuoFernSerialProtocol_init
            [0x0F, 0xFF, 0x0F, 0x21, 0x85, 0, 0, 0, 0, 0, 0x01, 0xAA, 0x1F, 0, 0,
             0x40, 0x53, 0xB8, 0, 0, 0, 0])
       = [Frame_callback
            [0x0F, 0xFF, 0x0F, 0x21, 0x85, 0, 0, 0, 0, 0, 0x01, 0xAA, 0x1F, 0, 0,
             0x40, 0x53, 0xB8, 0, 0, 0, 0]]"
    by (simp add: DuoFernSerialProtocol_init_def data_received_def extract_frames.simps
        FRAME_SIZE_BYTES_def)
  show ?thesis
    using np run ack_before_dispatch
      [where s = "(DuoFernStick_init \<lparr>raw = [0x6F, 0x12, 0x34]\<rparr> [])\<lparr>transport := True\<rparr>"
         and fr = "[0x0F, 0xFF, 0x0F, 0x21, 0x85, 0, 0, 0, 0, 0, 0x01, 0xAA, 0x1F, 0, 0,
                    0x40, 0x53, 0xB8, 0, 0, 0, 0]"
         and p = DuoFernSerialProtocol_init
         and chunk = "[0x0F, 0xFF, 0x0F, 0x21, 0x85, 0, 0, 0, 0, 0, 0x01, 0xAA, 0x1F, 0, 0,
                    0x40, 0x53, 0xB8, 0, 0, 0, 0]"]
    ack_before_dispatch
      [where s = "(DuoFernStick_init \<lparr>raw = [0x6F, 0x12, 0x34]\<rparr> [])\<lparr>transport := True\<rparr>"
         and fr = "[0x0F, 0xFF, 0x11, 0, 0, 0, 0, 0, 0, 0, 0, 0, 0, 0, 0, 0, 0, 0, 0, 0, 0, 0]"]
    ack_before_dispatch
      [where s = "(DuoFernStick_init \<lparr>raw = [0x6F, 0x12, 0x34]\<rparr> [])\<lparr>transport := True\<rparr>"
         and fr = "[0x81, 0, 0, 0, 0, 0, 0, 0, 0, 0, 0, 0, 0, 0, 0, 0, 0, 0, 0, 0, 0, 0]"]
    by (simp add: DuoFernStick_init_def)
qed

section \<open>The initialization handshake\<close>

lemma adj_ok_append:
  "adj_ok (xs @ ys) \<longleftrightarrow>
     adj_ok xs \<and> adj_ok ys \<and> (xs \<noteq> [] \<and> ys \<noteq> [] \<longrightarrow> follows (last xs) (hd ys))"
  by (induction xs) (auto simp: hd_append)

lemma adj_ok_nth:
  "adj_ok es \<longleftrightarrow> (\<forall>i. Suc i < length es \<longrightarrow> follows (es ! i) (es ! Suc i))"
proof (induction es)
  case Nil
  then show ?case by simp
next
  case (Cons e es)
  show ?case
  proof
    assume a: "adj_ok (e # es)"
    show "\<forall>i. Suc i < length (e # es) \<longrightarrow> follows ((e # es) ! i) ((e # es) ! Suc i)"
    proof (intro allI impI)
      fix i assume i: "Suc i < length (e # es)"
      show "follows ((e # es) ! i) ((e # es) ! Suc i)"
      proof (cases i)
        case 0
        with a i show ?thesis by (cases es) auto
      next
        case (Suc j)
        with a i Cons.IH show ?thesis by auto
      qed
    qed
  next
    assume a: "\<forall>i. Suc i < length (e # es) \<longrightarrow> follows ((e # es) ! i) ((e # es) ! Suc i)"
    have "es \<noteq> [] \<longrightarrow> follows e (hd es)"
      using a [rule_format, of 0] by (cases es) auto
    moreover have "adj_ok es"
      unfolding Cons.IH
    proof (intro allI impI)
      fix i assume "Suc i < length es"
      then show "follows (es ! i) (es ! Suc i)"
        using a [rule_format, of "Suc i"] by simp
    qed
    ultimately show "adj_ok (e # es)" by simp
  qed
qed

lemma send_and_wait_open:
  assumes "transport s" and "serial_protocol s"
  shows "send_and_wait f replies s =
     (case next_reply replies of
        (Some x, r) \<Rightarrow> (Some x, r, s\<lparr>trace := trace s @ [Tx f]\<rparr>)
      | (None, r) \<Rightarrow> (None, r, s\<lparr>trace := trace s @ [Tx f, TimedOut f]\<rparr>))"
  using assms
  by (simp add: send_and_wait_def write_frame_def split: prod.splits option.splits)

lemma write_frame_open: "transport s \<Longrightarrow> write_frame f s = s\<lparr>trace := trace s @ [Tx f]\<rparr>"
  by (simp add: write_frame_def)

lemma build_set_pair_0: "build_set_pair idx d ! 0 = 0x03"
  by (simp add: build_set_pair_def set_slice_def frame_zero_simp nth_append)

lemma build_set_dongle_0: "build_set_dongle sc ! 0 = 0x0A"
  by (simp add: build_set_dongle_def set_slice_def frame_zero_simp nth_append nth_list_update)

lemma register_devices_trace:
  "transport s \<Longrightarrow> serial_protocol s \<Longrightarrow> register_devices idx devs replies s = (r', s') \<Longrightarrow>
   \<exists>new. s' = s\<lparr>trace := trace s @ new\<rparr> \<and> pair_ok new"
proof (induction devs arbitrary: idx replies s r' s')
  case Nil
  then have "s' = s\<lparr>trace := trace s @ []\<rparr>" by simp
  moreover have "pair_ok []" by (simp add: pair_ok_def)
  ultimately show ?case by blast
next
  case (Cons d devs)
  obtain x r1 where nr: "next_reply replies = (x, r1)" by (cases "next_reply replies")
  let ?f = "build_set_pair idx d"
  have f0: "?f ! 0 = 0x03" by (rule build_set_pair_0)
  have ni: "?f \<noteq> build_init1"
    using f0 by (auto simp: build_init1_def frame_zero_simp)
  have na: "build_ack \<noteq> build_init1"
    by (simp add: build_ack_def build_init1_def frame_zero_simp)
  show ?case
  proof (cases x)
    case None
    let ?s1 = "s\<lparr>trace := trace s @ [Tx ?f, TimedOut ?f]\<rparr>"
    from Cons.prems nr None have rec: "register_devices (idx + 1) devs r1 ?s1 = (r', s')"
      by (simp add: send_and_wait_open)
    from Cons.IH [OF _ _ rec] Cons.prems(1,2)
    obtain new where n: "s' = ?s1\<lparr>trace := trace ?s1 @ new\<rparr>" "pair_ok new" by auto
    have "s' = s\<lparr>trace := trace s @ ([Tx ?f, TimedOut ?f] @ new)\<rparr>"
      using n(1) by simp
    moreover have "pair_ok ([Tx ?f, TimedOut ?f] @ new)"
      using n(2) f0 ni by (auto simp: pair_ok_def crit_timeout_def)
    ultimately show ?thesis by blast
  next
    case (Some y)
    let ?s1 = "s\<lparr>trace := trace s @ [Tx ?f, Tx build_ack]\<rparr>"
    from Cons.prems nr Some have rec: "register_devices (idx + 1) devs r1 ?s1 = (r', s')"
      by (simp add: send_and_wait_open write_frame_open)
    from Cons.IH [OF _ _ rec] Cons.prems(1,2)
    obtain new where n: "s' = ?s1\<lparr>trace := trace ?s1 @ new\<rparr>" "pair_ok new" by auto
    have "s' = s\<lparr>trace := trace s @ ([Tx ?f, Tx build_ack] @ new)\<rparr>"
      using n(1) by simp
    moreover have "pair_ok ([Tx ?f, Tx build_ack] @ new)"
      using n(2) f0 ni na by (auto simp: pair_ok_def crit_timeout_def)
    ultimately show ?thesis by blast
  qed
qed


lemma follows_init_end: "\<not> crit_timeout e \<Longrightarrow> follows e (Tx build_init_end)"
  by (cases e) (auto simp: crit_timeout_def)

lemma pair_ok_last: "pair_ok new \<Longrightarrow> new \<noteq> [] \<Longrightarrow> follows (last new) (Tx build_init_end)"
  by (rule follows_init_end) (simp add: pair_ok_def)

lemma frames_0:
  "build_init1 ! 0 = 0x01" "build_init2 ! 0 = 0x0E" "build_init3 ! 0 = 0x14"
  "build_init_end ! 0 = 0x10" "build_ack ! 0 = 0x81" "build_status_request_broadcast ! 0 = 0x0D"
  by (simp_all add: const_frames frame_zero_simp)

lemma not_init1:
  "build_init2 \<noteq> build_init1" "build_init3 \<noteq> build_init1" "build_init_end \<noteq> build_init1"
  "build_ack \<noteq> build_init1" "build_status_request_broadcast \<noteq> build_init1"
  "build_set_dongle sc \<noteq> build_init1"
  using build_set_dongle_0 [of sc]
  by (auto simp: const_frames frame_zero_simp)

lemmas ne_init1 = not_init1 not_init1 [symmetric]

lemma crit_frames:
  "crit_timeout (TimedOut build_init1)" "crit_timeout (TimedOut build_init2)"
  "crit_timeout (TimedOut (build_set_dongle sc))" "crit_timeout (TimedOut build_init3)"
  "crit_timeout (TimedOut build_init_end)"
  "crit_timeout (TimedOut build_status_request_broadcast)"
  "\<not> crit_timeout (Tx f)"
  by (simp_all add: crit_timeout_def frames_0 build_set_dongle_0)

lemma init_attempt_trace:
  assumes t: "transport s" and p: "serial_protocol s"
    and run: "init_attempt replies s = (done, r', s')"
  shows "\<exists>new. (if done then s' = s\<lparr>trace := trace s @ new, initialized := True\<rparr>
                 else s' = s\<lparr>trace := trace s @ new\<rparr>)
               \<and> attempt_ok done new"
proof -
  let ?i1 = build_init1 and ?i2 = build_init2 and ?sd = "build_set_dongle (system_code s)"
  let ?i3 = build_init3 and ?ie = build_init_end and ?sb = build_status_request_broadcast
  let ?ack = build_ack
  obtain x1 r1 where n1: "next_reply replies = (x1, r1)" by (cases "next_reply replies")
  obtain x2 r2 where n2: "next_reply r1 = (x2, r2)" by (cases "next_reply r1")
  obtain x3 r3 where n3: "next_reply r2 = (x3, r3)" by (cases "next_reply r2")
  obtain x4 r4 where n4: "next_reply r3 = (x4, r4)" by (cases "next_reply r3")
  let ?pre = "[Tx ?i1, Tx ?i2, Tx ?sd, Tx ?ack, Tx ?i3, Tx ?ack]"
  let ?s4 = "s\<lparr>trace := trace s @ ?pre\<rparr>"
  obtain r5 s5 where reg: "register_devices 0 (paired_devices s) r4 ?s4 = (r5, s5)"
    by (cases "register_devices 0 (paired_devices s) r4 ?s4")
  from register_devices_trace [OF _ _ reg] t p
  obtain pn where pn: "s5 = s\<lparr>trace := trace s @ ?pre @ pn\<rparr>" "pair_ok pn"
    by auto
  obtain x6 r6 where n6: "next_reply r5 = (x6, r6)" by (cases "next_reply r5")
  obtain x7 r7 where n7: "next_reply r6 = (x7, r7)" by (cases "next_reply r6")
  note sw = send_and_wait_open write_frame_open
  show ?thesis
  proof (cases x1)
    case None
    with run n1 t p have "done = False" "s' = s\<lparr>trace := trace s @ [Tx ?i1, TimedOut ?i1]\<rparr>"
      by (simp_all add: init_attempt_def sw)
    moreover have "attempt_ok False [Tx ?i1, TimedOut ?i1]"
      by (simp add: attempt_ok_def crit_frames)
    ultimately show ?thesis by auto
  next
    case s1: (Some y1)
    show ?thesis
    proof (cases x2)
      case None
      with run n1 n2 s1 t p
      have "done = False" "s' = s\<lparr>trace := trace s @ [Tx ?i1, Tx ?i2, TimedOut ?i2]\<rparr>"
        by (simp_all add: init_attempt_def sw)
      moreover have "attempt_ok False [Tx ?i1, Tx ?i2, TimedOut ?i2]"
        by (simp add: attempt_ok_def crit_frames ne_init1)
      ultimately show ?thesis by auto
    next
      case s2: (Some y2)
      show ?thesis
      proof (cases x3)
        case None
        with run n1 n2 n3 s1 s2 t p
        have "done = False"
          "s' = s\<lparr>trace := trace s @ [Tx ?i1, Tx ?i2, Tx ?sd, TimedOut ?sd]\<rparr>"
          by (simp_all add: init_attempt_def sw)
        moreover have "attempt_ok False [Tx ?i1, Tx ?i2, Tx ?sd, TimedOut ?sd]"
          by (simp add: attempt_ok_def crit_frames ne_init1)
        ultimately show ?thesis by auto
      next
        case s3: (Some y3)
        show ?thesis
        proof (cases x4)
          case None
          with run n1 n2 n3 n4 s1 s2 s3 t p
          have "done = False"
            "s' = s\<lparr>trace := trace s @ [Tx ?i1, Tx ?i2, Tx ?sd, Tx ?ack, Tx ?i3, TimedOut ?i3]\<rparr>"
            by (simp_all add: init_attempt_def sw)
          moreover have "attempt_ok False [Tx ?i1, Tx ?i2, Tx ?sd, Tx ?ack, Tx ?i3, TimedOut ?i3]"
            by (simp add: attempt_ok_def crit_frames ne_init1)
          ultimately show ?thesis by auto
        next
          case s4: (Some y4)
          have pre_ok: "adj_ok (?pre @ pn)" "Tx ?i1 \<notin> set (tl (?pre @ pn))"
            using pn(2) by (auto simp: adj_ok_append pair_ok_def ne_init1)
          show ?thesis
          proof (cases x6)
            case None
            with run n1 n2 n3 n4 s1 s2 s3 s4 reg pn(1) n6 t p
            have "done = False"
              "s' = s\<lparr>trace := trace s @ (?pre @ pn) @ [Tx ?ie, TimedOut ?ie]\<rparr>"
              by (simp_all add: init_attempt_def sw)
            moreover have "attempt_ok False ((?pre @ pn) @ [Tx ?ie, TimedOut ?ie])"
              using pre_ok pn(2) pair_ok_last [OF pn(2)]
              by (auto simp: attempt_ok_def adj_ok_append crit_frames ne_init1)
            ultimately show ?thesis by auto
          next
            case s6: (Some y6)
            show ?thesis
            proof (cases x7)
              case None
              with run n1 n2 n3 n4 s1 s2 s3 s4 reg pn(1) n6 s6 n7 t p
              have "done = False"
                "s' = s\<lparr>trace := trace s @ (?pre @ pn) @ [Tx ?ie, Tx ?ack, Tx ?sb, TimedOut ?sb]\<rparr>"
                by (simp_all add: init_attempt_def sw)
              moreover have "attempt_ok False ((?pre @ pn) @ [Tx ?ie, Tx ?ack, Tx ?sb, TimedOut ?sb])"
                using pre_ok pn(2) pair_ok_last [OF pn(2)]
                by (auto simp: attempt_ok_def adj_ok_append crit_frames ne_init1)
              ultimately show ?thesis by auto
            next
              case s7: (Some y7)
              with run n1 n2 n3 n4 s1 s2 s3 s4 reg pn(1) n6 s6 n7 t p
              have "done = True"
                "s' = s\<lparr>trace := trace s @ (?pre @ pn) @ [Tx ?ie, Tx ?ack, Tx ?sb, Tx ?ack],
                        initialized := True\<rparr>"
                by (simp_all add: init_attempt_def sw)
              moreover have "attempt_ok True ((?pre @ pn) @ [Tx ?ie, Tx ?ack, Tx ?sb, Tx ?ack])"
                using pre_ok pn(2) pair_ok_last [OF pn(2)]
                by (auto simp: attempt_ok_def adj_ok_append crit_frames ne_init1)
              ultimately show ?thesis by auto
            qed
          qed
        qed
      qed
    qed
  qed
qed


lemma attempt_ok_count: "attempt_ok done a \<Longrightarrow> init1_count a = 1 \<and> a \<noteq> [] \<and> hd a = Tx build_init1"
  by (auto simp: attempt_ok_def init1_count_def filter_empty_conv)

lemma init1_count_append: "init1_count (xs @ ys) = init1_count xs + init1_count ys"
  by (simp add: init1_count_def)

lemma init1_count_hd: "new \<noteq> [] \<Longrightarrow> hd new = Tx build_init1 \<Longrightarrow> 0 < init1_count new"
  by (cases new) (simp_all add: init1_count_def)

lemma follows_crit: "crit_timeout e \<Longrightarrow> follows e (Tx build_init1)"
  by (auto simp: crit_timeout_def)

lemma init_attempts_trace:
  "transport s \<Longrightarrow> serial_protocol s \<Longrightarrow> init_attempts n replies s = (res, r', s') \<Longrightarrow>
   \<exists>new. trace s' = trace s @ new \<and> loop_ok n res new
         \<and> connected_flag s' = connected_flag s
         \<and> (initialized s' \<longleftrightarrow> res = Inr () \<or> initialized s)"
proof (induction n arbitrary: replies s)
  case 0
  then have "res = Inl ConnectionError" "s' = s" by simp_all
  then show ?case by (auto simp: loop_ok_def init1_count_def)
next
  case (Suc n)
  obtain fin r1 s1 where att: "init_attempt replies s = (fin, r1, s1)"
    by (cases "init_attempt replies s")
  from init_attempt_trace [OF Suc.prems(1,2) att]
  obtain a where a: "if fin then s1 = s\<lparr>trace := trace s @ a, initialized := True\<rparr>
                     else s1 = s\<lparr>trace := trace s @ a\<rparr>" "attempt_ok fin a"
    by blast
  note c = attempt_ok_count [OF a(2)]
  show ?case
  proof (cases fin)
    case True
    with Suc.prems(3) att have "res = Inr ()" "s' = s1" by simp_all
    moreover have "loop_ok (Suc n) (Inr ()) a"
      using a(2) c True by (simp add: loop_ok_def attempt_ok_def)
    ultimately show ?thesis using a(1) True by auto
  next
    case False
    with Suc.prems(3) att have rec: "init_attempts n r1 s1 = (res, r', s')" by simp
    from a(1) False have s1: "s1 = s\<lparr>trace := trace s @ a\<rparr>" by simp
    have "transport s1" "serial_protocol s1"
      using Suc.prems(1,2) by (simp_all add: s1)
    from Suc.IH [OF this rec]
    obtain new where new: "trace s' = trace s1 @ new" "loop_ok n res new"
        "connected_flag s' = connected_flag s1"
        "initialized s' \<longleftrightarrow> res = Inr () \<or> initialized s1"
      by blast
    have la: "crit_timeout (last a)" using a(2) False by (simp add: attempt_ok_def)
    have "adj_ok (a @ new)"
      using a(2) new(2) la follows_crit [OF la]
      by (auto simp: adj_ok_append attempt_ok_def loop_ok_def)
    moreover have "new = []" if "init1_count new = 0"
    proof (rule ccontr)
      assume "new \<noteq> []"
      with new(2) have "hd new = Tx build_init1" by (simp add: loop_ok_def)
      from init1_count_hd [OF \<open>new \<noteq> []\<close> this] that show False by simp
    qed
    ultimately have "loop_ok (Suc n) res (a @ new)"
      using new(2) c la
      by (cases res; cases "new = []") (auto simp: loop_ok_def init1_count_append)
    moreover have "trace s' = trace s @ (a @ new)"
      using new(1) by (simp add: s1)
    ultimately show ?thesis
      using new(3,4) by (auto simp: s1)
  qed
qed

lemma next_reply_silent:
  "set replies \<subseteq> {None} \<Longrightarrow> \<exists>r. next_reply replies = (None, r) \<and> set r \<subseteq> {None}"
  by (cases replies) auto

lemma init_attempts_silent:
  "transport s \<Longrightarrow> serial_protocol s \<Longrightarrow> set replies \<subseteq> {None} \<Longrightarrow>
   \<exists>r. init_attempts n replies s =
     (Inl ConnectionError, r,
      s\<lparr>trace := trace s @ concat (replicate n [Tx build_init1, TimedOut build_init1])\<rparr>)"
proof (induction n arbitrary: replies s)
  case 0
  then show ?case by simp
next
  case (Suc n)
  from next_reply_silent [OF Suc.prems(3)]
  obtain r1 where r1: "next_reply replies = (None, r1)" "set r1 \<subseteq> {None}" by blast
  let ?s1 = "s\<lparr>trace := trace s @ [Tx build_init1, TimedOut build_init1]\<rparr>"
  have att: "init_attempt replies s = (False, r1, ?s1)"
    using Suc.prems(1,2) r1(1) by (simp add: init_attempt_def send_and_wait_open)
  have "transport ?s1" "serial_protocol ?s1" using Suc.prems(1,2) by simp_all
  from Suc.IH [OF this r1(2)] att show ?case by auto
qed

text \<open>
  C2. \<^verbatim>\<open>connect\<close> on a fresh stick, whatever replies arrive. Right after the timeout of
  a step other than SetPair the next thing the handshake does is to write Init1: the whole
  sequence starts again, not the step that failed; right after the timeout of a SetPair
  frame it writes the next SetPair frame or InitEnd. The trace begins with Init1, Init1 is
  written at most \<open>INIT_RETRY_COUNT = 4\<close> times, and \<^verbatim>\<open>connect\<close> either succeeds or
  fails with a connection error; it fails only after four attempts, the last event being
  the timeout of a step other than SetPair. When no reply ever arrives the trace is four
  times Init1 and its timeout, and \<^verbatim>\<open>connect\<close> fails with a connection error.
\<close>

theorem handshake_restarts_from_init1:
  assumes "connect replies (DuoFernStick_init sc devs) = (res, rest, s')"
  shows "(\<forall>i. Suc i < length (trace s') \<longrightarrow> follows (trace s' ! i) (trace s' ! Suc i))
       \<and> trace s' \<noteq> [] \<and> hd (trace s') = Tx build_init1
       \<and> init1_count (trace s') \<le> INIT_RETRY_COUNT
       \<and> (res = Inl ConnectionError \<or> res = Inr ())
       \<and> (res = Inl ConnectionError \<longrightarrow>
            init1_count (trace s') = INIT_RETRY_COUNT
            \<and> (\<exists>f. last (trace s') = TimedOut f \<and> f ! 0 \<noteq> MessageType_value SET_PAIRS)
            \<and> \<not> initialized s')
       \<and> (res = Inr () \<longrightarrow> initialized s' \<and> connected s' \<and> last (trace s') = Tx build_ack)
       \<and> (set replies \<subseteq> {None} \<longrightarrow>
            res = Inl ConnectionError
            \<and> trace s' = [Tx build_init1, TimedOut build_init1, Tx build_init1, TimedOut build_init1,
                          Tx build_init1, TimedOut build_init1, Tx build_init1, TimedOut build_init1])"
proof -
  let ?s = "(DuoFernStick_init sc devs)\<lparr>transport := True, serial_protocol := True,
              connected_flag := True\<rparr>"
  obtain res1 r1 s1 where seq: "init_attempts INIT_RETRY_COUNT replies ?s = (res1, r1, s1)"
    by (cases "init_attempts INIT_RETRY_COUNT replies ?s")
  have ts: "transport ?s" "serial_protocol ?s" by simp_all
  have t0: "trace ?s = []" "\<not> initialized ?s" "connected_flag ?s"
    by (simp_all add: DuoFernStick_init_def)
  from assms seq have eq: "res = res1" "trace s' = trace s1" "initialized s' = initialized s1"
      "connected_flag s' = connected_flag s1"
    by (auto simp: connect_def init_sequence_def split: sum.splits)
  from init_attempts_trace [OF ts seq] t0
  have ok: "loop_ok INIT_RETRY_COUNT res (trace s')" "connected_flag s'"
      "initialized s' \<longleftrightarrow> res = Inr ()"
    by (auto simp: eq)
  have pos: "0 < INIT_RETRY_COUNT" by (simp add: INIT_RETRY_COUNT_def)
  have A: "\<forall>i. Suc i < length (trace s') \<longrightarrow> follows (trace s' ! i) (trace s' ! Suc i)"
    using ok(1) by (simp add: loop_ok_def adj_ok_nth)
  have B: "trace s' \<noteq> [] \<and> hd (trace s') = Tx build_init1
          \<and> init1_count (trace s') \<le> INIT_RETRY_COUNT"
    using ok(1) pos by (simp add: loop_ok_def)
  have C: "res = Inl ConnectionError \<or> res = Inr ()"
    using ok(1) by (cases res) (auto simp: loop_ok_def)
  have D: "init1_count (trace s') = INIT_RETRY_COUNT
            \<and> (\<exists>f. last (trace s') = TimedOut f \<and> f ! 0 \<noteq> MessageType_value SET_PAIRS)
            \<and> \<not> initialized s'" if "res = Inl ConnectionError"
    using ok that pos by (auto simp: loop_ok_def crit_timeout_def)
  have E: "initialized s' \<and> connected s' \<and> last (trace s') = Tx build_ack" if "res = Inr ()"
    using ok that by (auto simp: loop_ok_def connected_def)
  have F: "res = Inl ConnectionError
            \<and> trace s' = [Tx build_init1, TimedOut build_init1, Tx build_init1, TimedOut build_init1,
                          Tx build_init1, TimedOut build_init1, Tx build_init1, TimedOut build_init1]"
    if "set replies \<subseteq> {None}"
  proof -
    from init_attempts_silent [OF ts that, of INIT_RETRY_COUNT] seq eq t0(1)
    show ?thesis by (auto simp: INIT_RETRY_COUNT_def eval_nat_numeral)
  qed
  from A B C D E F show ?thesis by blast
qed

theorem handshake_restarts_from_init1_witness:
  "connect [Some build_ack, Some build_ack, None,
            Some build_ack, Some build_ack, Some build_ack, Some build_ack, None, Some build_ack,
            Some build_ack, Some build_ack]
      (DuoFernStick_init \<lparr>raw = [0x6F, 0x12, 0x34]\<rparr>
         [\<lparr>raw = [0x40, 0x53, 0xB8]\<rparr>, \<lparr>raw = [0x40, 0x53, 0xB9]\<rparr>])
    = (Inr (), [],
       (DuoFernStick_init \<lparr>raw = [0x6F, 0x12, 0x34]\<rparr>
         [\<lparr>raw = [0x40, 0x53, 0xB8]\<rparr>, \<lparr>raw = [0x40, 0x53, 0xB9]\<rparr>])
       \<lparr>transport := True, serial_protocol := True, connected_flag := True, initialized := True,
        queue_task := True,
        trace :=
         [Tx build_init1, Tx build_init2, Tx (build_set_dongle \<lparr>raw = [0x6F, 0x12, 0x34]\<rparr>),
          TimedOut (build_set_dongle \<lparr>raw = [0x6F, 0x12, 0x34]\<rparr>),
          Tx build_init1, Tx build_init2, Tx (build_set_dongle \<lparr>raw = [0x6F, 0x12, 0x34]\<rparr>),
          Tx build_ack, Tx build_init3, Tx build_ack,
          Tx (build_set_pair 0 \<lparr>raw = [0x40, 0x53, 0xB8]\<rparr>),
          TimedOut (build_set_pair 0 \<lparr>raw = [0x40, 0x53, 0xB8]\<rparr>),
          Tx (build_set_pair 1 \<lparr>raw = [0x40, 0x53, 0xB9]\<rparr>), Tx build_ack,
          Tx build_init_end, Tx build_ack, Tx build_status_request_broadcast, Tx build_ack]\<rparr>)
   \<and> follows (TimedOut (build_set_dongle \<lparr>raw = [0x6F, 0x12, 0x34]\<rparr>)) (Tx build_init1)
   \<and> follows (TimedOut (build_set_pair 0 \<lparr>raw = [0x40, 0x53, 0xB8]\<rparr>))
        (Tx (build_set_pair 1 \<lparr>raw = [0x40, 0x53, 0xB9]\<rparr>))
   \<and> set [None, None :: frame option] \<subseteq> {None}
   \<and> fst (connect [None, None] (DuoFernStick_init \<lparr>raw = [0x6F, 0x12, 0x34]\<rparr> []))
       = Inl ConnectionError
   \<and> trace (snd (snd (connect [None, None] (DuoFernStick_init \<lparr>raw = [0x6F, 0x12, 0x34]\<rparr> []))))
       = [Tx build_init1, TimedOut build_init1, Tx build_init1, TimedOut build_init1,
          Tx build_init1, TimedOut build_init1, Tx build_init1, TimedOut build_init1]"
proof -
  obtain res rest s' where c: "connect [None, None] (DuoFernStick_init \<lparr>raw = [0x6F, 0x12, 0x34]\<rparr> [])
      = (res, rest, s')"
    by (cases "connect [None, None] (DuoFernStick_init \<lparr>raw = [0x6F, 0x12, 0x34]\<rparr> [])")
  have 1: "connect [Some build_ack, Some build_ack, None,
            Some build_ack, Some build_ack, Some build_ack, Some build_ack, None, Some build_ack,
            Some build_ack, Some build_ack]
      (DuoFernStick_init \<lparr>raw = [0x6F, 0x12, 0x34]\<rparr>
         [\<lparr>raw = [0x40, 0x53, 0xB8]\<rparr>, \<lparr>raw = [0x40, 0x53, 0xB9]\<rparr>])
    = (Inr (), [],
       (DuoFernStick_init \<lparr>raw = [0x6F, 0x12, 0x34]\<rparr>
         [\<lparr>raw = [0x40, 0x53, 0xB8]\<rparr>, \<lparr>raw = [0x40, 0x53, 0xB9]\<rparr>])
       \<lparr>transport := True, serial_protocol := True, connected_flag := True, initialized := True,
        queue_task := True,
        trace :=
         [Tx build_init1, Tx build_init2, Tx (build_set_dongle \<lparr>raw = [0x6F, 0x12, 0x34]\<rparr>),
          TimedOut (build_set_dongle \<lparr>raw = [0x6F, 0x12, 0x34]\<rparr>),
          Tx build_init1, Tx build_init2, Tx (build_set_dongle \<lparr>raw = [0x6F, 0x12, 0x34]\<rparr>),
          Tx build_ack, Tx build_init3, Tx build_ack,
          Tx (build_set_pair 0 \<lparr>raw = [0x40, 0x53, 0xB8]\<rparr>),
          TimedOut (build_set_pair 0 \<lparr>raw = [0x40, 0x53, 0xB8]\<rparr>),
          Tx (build_set_pair 1 \<lparr>raw = [0x40, 0x53, 0xB9]\<rparr>), Tx build_ack,
          Tx build_init_end, Tx build_ack, Tx build_status_request_broadcast, Tx build_ack]\<rparr>)"
    by (simp add: connect_def init_sequence_def INIT_RETRY_COUNT_def eval_nat_numeral
        init_attempt_def send_and_wait_def write_frame_def DuoFernStick_init_def)
  have 2: "follows (TimedOut (build_set_dongle \<lparr>raw = [0x6F, 0x12, 0x34]\<rparr>)) (Tx build_init1)"
    "follows (TimedOut (build_set_pair 0 \<lparr>raw = [0x40, 0x53, 0xB8]\<rparr>))
        (Tx (build_set_pair 1 \<lparr>raw = [0x40, 0x53, 0xB9]\<rparr>))"
    by (simp_all add: build_set_dongle_0 build_set_pair_0)
  from handshake_restarts_from_init1 [OF c] c 1 2 show ?thesis by simp
qed


end
